theory Spec2Isabelle
  imports Complex_Main "HOL-Library.Sublist"
begin

section \<open>JavaScript strings\<close>

text \<open>
  A JavaScript string is modelled as an Isabelle \<open>string\<close>: a list of 8-bit characters,
  read as the code units U+0000 .. U+00FF. The string methods the program calls are given
  on this range as ECMAScript defines them there.
\<close>

text \<open>White space and line terminators that \<open>String.prototype.trim\<close> strips (TAB, LF, VT, FF,
  CR, SPACE, NBSP).\<close>

definition isWhiteSpace :: "char \<Rightarrow> bool" where
  "isWhiteSpace c =
     (c \<in> set [CHR 0x09, CHR 0x0A, CHR 0x0B, CHR 0x0C, CHR 0x0D, CHR 0x20, CHR 0xA0])"

definition trimStart :: "string \<Rightarrow> string" where
  "trimStart s = dropWhile isWhiteSpace s"

definition trimEnd :: "string \<Rightarrow> string" where
  "trimEnd s = rev (dropWhile isWhiteSpace (rev s))"

definition trim :: "string \<Rightarrow> string" where
  "trim s = trimEnd (trimStart s)"

text \<open>The characters with a lower-case mapping: A-Z, and U+00C0 .. U+00DE without the
  multiplication sign U+00D7. Their lower-case form sets bit 5 (adds 32).\<close>

definition isUpperCase :: "char \<Rightarrow> bool" where
  "isUpperCase c =
     (let n = (of_char c :: nat)
      in (65 \<le> n \<and> n \<le> 90) \<or> (192 \<le> n \<and> n \<le> 222 \<and> n \<noteq> 215))"

definition toLowerChar :: "char \<Rightarrow> char" where
  "toLowerChar c =
     (if isUpperCase c
      then (case c of Char b0 b1 b2 b3 b4 b5 b6 b7 \<Rightarrow> Char b0 b1 b2 b3 b4 True b6 b7)
      else c)"

definition toLowerCase :: "string \<Rightarrow> string" where
  "toLowerCase s = map toLowerChar s"

text \<open>\<open>t.startsWith(w)\<close> and \<open>t.includes(w)\<close>.\<close>

fun startsWith :: "string \<Rightarrow> string \<Rightarrow> bool" where
  "startsWith t [] = True"
| "startsWith [] (c # w) = False"
| "startsWith (a # t) (c # w) = (a = c \<and> startsWith t w)"

fun includes_str :: "string \<Rightarrow> string \<Rightarrow> bool" where
  "includes_str [] w = startsWith [] w"
| "includes_str (a # t) w = (startsWith (a # t) w \<or> includes_str t w)"

text \<open>\<open>s.split(sep)\<close> for a one-character separator: the pieces between the separators,
  empty pieces kept; the result is never the empty list. \<open>xs.join(sep)\<close> is its inverse.\<close>

fun split_str :: "string \<Rightarrow> char \<Rightarrow> string list" where
  "split_str [] sep = [[]]"
| "split_str (c # cs) sep =
     (if c = sep then [] # split_str cs sep
      else (case split_str cs sep of
              [] \<Rightarrow> [[c]]
            | p # ps \<Rightarrow> (c # p) # ps))"

fun join_str :: "string list \<Rightarrow> char \<Rightarrow> string" where
  "join_str [] sep = []"
| "join_str [p] sep = p"
| "join_str (p # q # ps) sep = p @ sep # join_str (q # ps) sep"

section \<open>Sentiment Hinter\<close>

definition NEG :: "string list" where
  "NEG = [''sad'', ''depressed'', ''anxious'', ''anxiety'', ''stressed'', ''alone'',
          ''lonely'', ''angry'', ''upset'', ''hurt'', ''ashamed'', ''guilty'', ''tired'',
          ''overwhelmed'', ''panic'', ''cry'', ''hate'', ''worthless'', ''failure'',
          ''lost'', ''hopeless'', ''suicidal'']"

definition POS :: "string list" where
  "POS = [''grateful'', ''happy'', ''hopeful'', ''excited'', ''proud'', ''calm'',
          ''relieved'', ''love'', ''optimistic'', ''progress'', ''peace'']"

text \<open>The two \<open>forEach\<close> loops over the keyword lists, as folds over the running score
  \<open>s\<close>.\<close>

definition sentimentScore :: "string \<Rightarrow> int" where
  "sentimentScore txt =
     (if txt = [] then 0
      else let t = toLowerCase txt;
               s0 = fold (\<lambda>w s. if includes_str t w then s - 1 else s) NEG 0
           in fold (\<lambda>w s. if includes_str t w then s + 1 else s) POS s0)"

section \<open>Prompt Composer\<close>

definition routeSlashCommand :: "string \<Rightarrow> string" where
  "routeSlashCommand txt =
     (let t = trim txt
      in if startsWith t ''/'' then
           (case split_str (drop 1 t) CHR '' '' of
              [] \<Rightarrow> txt
            | cmd # rest \<Rightarrow>
                (let body = join_str rest CHR '' '';
                     c = toLowerCase cmd
                 in if c = ''summarize'' then
                      ''Summarize this in 3 bullets and 1 next step.''
                        @ [CHR 0x0A, CHR 0x0A] @ body
                    else if c = ''reframe'' then
                      ''Reframe this thought compassionately and propose one experiment.''
                        @ [CHR 0x0A, CHR 0x0A] @ body
                    else if c = ''coach'' then
                      ''Act as a supportive coach: ask one clarifying question, then suggest a next action.''
                        @ [CHR 0x0A, CHR 0x0A] @ body
                    else if c = ''journal'' then
                      ''Help me journal: give a 4-line guided prompt, then hold space for 60 seconds (describe a quick breathing anchor).''
                        @ [CHR 0x0A, CHR 0x0A] @ body
                    else txt))
         else txt)"

text \<open>\<open>enhancePrompt\<close> reads \<open>state.empathicMode\<close>; the flag is its first argument here.\<close>

definition enhancePrompt :: "bool \<Rightarrow> string \<Rightarrow> string" where
  "enhancePrompt empathic raw =
     (let sScore = sentimentScore raw;
          toneHint = (if sScore < 0 then ''gentle, validating, non-judgmental''
                      else if sScore > 0 then ''encouraging, balanced''
                      else ''neutral, respectful'');
          empathicScaffold =
            (if empathic then
               [CHR 0x0A, CHR 0x0A]
               @ ''Follow this structure briefly: 1) Reflect what you heard, 2) Name underlying needs/values, 3) Offer 2 options (self-care + practical), 4) Ask a small open question.''
             else [])
      in ''You are an empathic, trauma-informed AI listener. Avoid medical/clinical claims. Be kind, concise and specific. Use plain language.''
         @ [CHR 0x0A] @ ''Tone: '' @ toneHint @ ''.'' @ empathicScaffold
         @ [CHR 0x0A, CHR 0x0A] @ ''User message: '' @ raw)"

section \<open>JavaScript numbers and the generation parameters\<close>

text \<open>
  A JavaScript number: a finite value, one of the two infinities, or NaN. The program only
  compares numbers and tests them for truthiness, so a finite value is kept as the real
  number it denotes (both zeros are \<open>Fin 0\<close>).
\<close>

datatype jsnum = NaN | NegInf | Fin real | PosInf

fun js_le :: "jsnum \<Rightarrow> jsnum \<Rightarrow> bool" where
  "js_le NaN y = False"
| "js_le x NaN = False"
| "js_le NegInf y = True"
| "js_le x PosInf = True"
| "js_le (Fin a) (Fin b) = (a \<le> b)"
| "js_le PosInf y = False"
| "js_le x NegInf = False"

text \<open>\<open>Math.min\<close> and \<open>Math.max\<close> of two arguments: NaN if either is NaN.\<close>

definition Math_min :: "jsnum \<Rightarrow> jsnum \<Rightarrow> jsnum" where
  "Math_min x y = (if x = NaN \<or> y = NaN then NaN else if js_le x y then x else y)"

definition Math_max :: "jsnum \<Rightarrow> jsnum \<Rightarrow> jsnum" where
  "Math_max x y = (if x = NaN \<or> y = NaN then NaN else if js_le x y then y else x)"

definition clamp :: "jsnum \<Rightarrow> jsnum \<Rightarrow> jsnum \<Rightarrow> jsnum" where
  "clamp v a b = Math_max a (Math_min v b)"

text \<open>\<open>x || d\<close> on numbers: \<open>d\<close> when \<open>x\<close> is falsy, that is zero or NaN.\<close>

definition or_default :: "jsnum \<Rightarrow> jsnum \<Rightarrow> jsnum" where
  "or_default x d = (if x = NaN \<or> x = Fin 0 then d else x)"

section \<open>Conversation Store\<close>

datatype role = User | Assistant

text \<open>A message \<open>{role, text, ts, cached?, error?}\<close>; an absent flag is \<open>False\<close>.\<close>

record message =
  role :: role
  content :: string
  ts :: string
  cached :: bool
  error :: bool

record preset =
  label :: string
  prompt :: string

text \<open>
  The Session State. The fields \<open>temperature\<close>, \<open>topP\<close> and \<open>topK\<close> hold the number
  that \<open>Number(...)\<close> makes of the stored value; \<open>send\<close> reads them through \<open>Number\<close>
  only.
\<close>

record session_state =
  apiKey :: string
  temperature :: jsnum
  topP :: jsnum
  topK :: jsnum
  quickReplies :: bool
  empathicMode :: bool
  model :: string
  chat :: "message list"
  input :: string
  presets :: "preset list"

section \<open>Completion Client\<close>

record generationConfig =
  gen_temperature :: jsnum
  gen_topP :: jsnum
  gen_topK :: jsnum
  candidateCount :: nat

text \<open>The request body: the one text part of the one user turn, and the parameters.\<close>

record payload =
  contents_text :: string
  generationConfig :: generationConfig

definition GEMINI_ENDPOINT :: "string \<Rightarrow> string" where
  "GEMINI_ENDPOINT key =
     ''https://generativelanguage.googleapis.com/v1beta/models/gemini-2.0-flash:generateContent?key=''
     @ key"

text \<open>What the program does to the outside, in the order it does it.\<close>

datatype effect =
    Alert string
  | ConsoleError
  | Post string payload
  | Sleep nat

text \<open>
  What \<open>await axios.post(...)\<close> comes back with. A resolved request carries the text found
  at \<open>data.candidates[0].content.parts[0].text\<close>, if there is one. A rejected one throws:
  an axios error with a response (its status, and \<open>data.error.message\<close> if present), an
  axios error without a response, or some other error.
\<close>

datatype failure = HttpError nat "string option" | NetworkError | OtherError

datatype response = Resolved "string option" | Rejected failure

text \<open>
  The environment of the component: the key from \<open>import.meta.env\<close> (empty when not set)
  and the clock behind \<open>nowISO\<close>, as the sequence of its readings.
\<close>

record env =
  viteKey :: string
  clock :: "nat \<Rightarrow> string"

text \<open>
  Everything \<open>send\<close> can read or change: the Session State, the busy flag, the Response
  Cache (\<open>cacheRef.current\<close>), the effects so far and the number of clock readings taken.
  A handler sees the state and the busy flag of the latest render.
\<close>

record 's world =
  state :: 's
  busy :: bool
  cacheRef :: "string \<rightharpoonup> string"
  effects :: "effect list"
  clockReads :: nat

text \<open>The locals of a \<open>send\<close> that is suspended at an \<open>await\<close>; \<open>closure\<close> is the \<open>state\<close>
  of the render that created it.\<close>

record pending =
  question :: string
  key_used :: string
  closure :: session_state
  enhanced :: string
  attempt :: nat
  delay :: nat

datatype status = Done | AwaitPost pending | AwaitSleep pending

definition MAX_ATTEMPTS :: nat where
  "MAX_ATTEMPTS = 3"

text \<open>The emoji U+1FAF6 of the header lies outside the 8-bit range; it is written as the
  four bytes of its UTF-8 form.\<close>

definition empathicHeader :: string where
  "empathicHeader = [CHR 0xF0, CHR 0x9F, CHR 0xAB, CHR 0xB6, CHR 0x20, CHR 0x0A, CHR 0x0A]"

text \<open>\<open>setState((s) => ({...s, chat: [...s.chat, m]}))\<close> for a message \<open>m\<close> stamped with
  \<open>nowISO()\<close>.\<close>

definition appendMessage ::
  "env \<Rightarrow> role \<Rightarrow> string \<Rightarrow> bool \<Rightarrow> bool \<Rightarrow> session_state world \<Rightarrow> session_state world" where
  "appendMessage e r txt c err w =
     w\<lparr>state := (state w)\<lparr>chat := chat (state w) @
          [\<lparr>role = r, content = txt, ts = clock e (clockReads w), cached = c, error = err\<rparr>]\<rparr>,
       clockReads := Suc (clockReads w)\<rparr>"

text \<open>The \<open>payload\<close> object built at the top of the \<open>try\<close>, from the \<open>state\<close> the handler
  closed over and the enhanced prompt.\<close>

definition genConfig :: "session_state \<Rightarrow> generationConfig" where
  "genConfig st =
     \<lparr>gen_temperature = clamp (or_default (temperature st) (Fin 0.7)) (Fin 0) (Fin 2),
      gen_topP = clamp (or_default (topP st) (Fin 0.95)) (Fin 0) (Fin 1),
      gen_topK = clamp (or_default (topK st) (Fin 40)) (Fin 1) (Fin 200),
      candidateCount = 1\<rparr>"

definition buildPayload :: "session_state \<Rightarrow> string \<Rightarrow> payload" where
  "buildPayload st prompt_text = \<lparr>contents_text = prompt_text, generationConfig = genConfig st\<rparr>"

text \<open>The head of the \<open>while\<close> loop: another request while attempts remain.\<close>

definition loopHead :: "pending \<Rightarrow> session_state world \<Rightarrow> status \<times> session_state world" where
  "loopHead k w =
     (if attempt k < MAX_ATTEMPTS
      then (AwaitPost k,
            w\<lparr>effects := effects w @
               [Post (GEMINI_ENDPOINT (key_used k)) (buildPayload (closure k) (enhanced k))]\<rparr>)
      else (Done, w))"

text \<open>\<open>state.apiKey || import.meta?.env?.VITE_API_GENERATIVE_LANGUAGE_CLIENT || ''\<close>.\<close>

definition effectiveKey :: "env \<Rightarrow> session_state \<Rightarrow> string" where
  "effectiveKey e st = (if apiKey st \<noteq> [] then apiKey st else viteKey e)"

text \<open>\<open>send\<close> from its call to its first \<open>await\<close>, or to its return.\<close>

definition send_begin :: "env \<Rightarrow> session_state world \<Rightarrow> status \<times> session_state world" where
  "send_begin e w =
     (let question = trim (input (state w))
      in if question = [] \<or> busy w then (Done, w)
         else
           let key = effectiveKey e (state w)
           in if key = [] then
                (Done, w\<lparr>effects := effects w @
                   [Alert ''Missing API key. Paste your Google Generative Language API key in Settings (gear icon).'']\<rparr>)
              else
                let w1 = appendMessage e User question False False w;
                    w2 = w1\<lparr>state := (state w1)\<lparr>input := []\<rparr>\<rparr>
                in (case cacheRef w2 question of
                      Some hit \<Rightarrow> (Done, appendMessage e Assistant hit True False w2)
                    | None \<Rightarrow>
                        loopHead
                          \<lparr>question = question, key_used = key, closure = state w,
                           enhanced = enhancePrompt (empathicMode (state w))
                                        (routeSlashCommand question),
                           attempt = 0, delay = 1200\<rparr>
                          (w2\<lparr>busy := True\<rparr>)))"

text \<open>The \<open>catch\<close> block, entered with the error thrown in the \<open>try\<close>.\<close>

definition is429 :: "failure \<Rightarrow> bool" where
  "is429 err = (case err of HttpError s m \<Rightarrow> s = 429 | _ \<Rightarrow> False)"

definition errorMessage :: "failure \<Rightarrow> string" where
  "errorMessage err =
     (case err of
        HttpError s (Some m) \<Rightarrow>
          if m \<noteq> [] then m else ''Sorry, something went wrong. Please try again.''
      | _ \<Rightarrow> ''Sorry, something went wrong. Please try again.'')"

definition onCatch ::
  "env \<Rightarrow> pending \<Rightarrow> failure \<Rightarrow> session_state world \<Rightarrow> status \<times> session_state world" where
  "onCatch e k err w =
     (let w1 = w\<lparr>effects := effects w @ [ConsoleError]\<rparr>;
          k1 = k\<lparr>attempt := attempt k + 1\<rparr>
      in if is429 err \<and> attempt k1 < MAX_ATTEMPTS then
           (AwaitSleep k1, w1\<lparr>effects := effects w1 @ [Sleep (delay k1)]\<rparr>)
         else
           (Done, (appendMessage e Assistant (errorMessage err) False True w1)\<lparr>busy := False\<rparr>))"

text \<open>The text that is cached and shown: the model's text, under a small header when the
  user's own words score negative and empathic mode is on.\<close>

definition wrap :: "string \<Rightarrow> bool \<Rightarrow> string \<Rightarrow> string" where
  "wrap q empathic t =
     (let sUser = sentimentScore q
      in if sUser < 0 \<and> empathic then empathicHeader @ t else t)"

text \<open>\<open>send\<close> from the return of \<open>axios.post\<close> to the next \<open>await\<close>, or to its end. The
  \<open>finally\<close> block clears the busy flag on the way out of the \<open>try\<close>.\<close>

definition send_after_post ::
  "env \<Rightarrow> pending \<Rightarrow> response \<Rightarrow> session_state world \<Rightarrow> status \<times> session_state world" where
  "send_after_post e k r w =
     (case r of
        Rejected err \<Rightarrow> onCatch e k err w
      | Resolved None \<Rightarrow> onCatch e k OtherError w
      | Resolved (Some t) \<Rightarrow>
          if t = [] then onCatch e k OtherError w
          else
            let wrapped = wrap (question k) (empathicMode (closure k)) t;
                w1 = w\<lparr>cacheRef := (cacheRef w)(question k \<mapsto> wrapped)\<rparr>;
                w2 = appendMessage e Assistant wrapped False False w1
            in (Done, w2\<lparr>busy := False\<rparr>))"

text \<open>\<open>send\<close> from the end of \<open>sleep(delay)\<close>: the delay doubles, \<open>continue\<close> leaves the
  \<open>try\<close> through \<open>finally\<close>, and the loop goes round.\<close>

definition send_after_sleep ::
  "env \<Rightarrow> pending \<Rightarrow> session_state world \<Rightarrow> status \<times> session_state world" where
  "send_after_sleep e k w = loopHead (k\<lparr>delay := delay k * 2\<rparr>) (w\<lparr>busy := False\<rparr>)"

text \<open>
  One \<open>send\<close> run without anything else happening in between: the network answers the
  successive requests with the responses of the list, and each timer fires in turn.
\<close>

definition deliver ::
  "env \<Rightarrow> response \<Rightarrow> status \<times> session_state world \<Rightarrow> status \<times> session_state world" where
  "deliver e r sw =
     (case sw of
        (AwaitPost k, w) \<Rightarrow>
          (case send_after_post e k r w of
             (AwaitSleep k1, w1) \<Rightarrow> send_after_sleep e k1 w1
           | sw1 \<Rightarrow> sw1)
      | _ \<Rightarrow> sw)"

fun drive ::
  "env \<Rightarrow> response list \<Rightarrow> status \<times> session_state world \<Rightarrow> status \<times> session_state world" where
  "drive e [] sw = sw"
| "drive e (r # rs) sw = drive e rs (deliver e r sw)"

definition send ::
  "env \<Rightarrow> response list \<Rightarrow> session_state world \<Rightarrow> status \<times> session_state world" where
  "send e rs w = drive e rs (send_begin e w)"

text \<open>The textarea's \<open>onChange\<close>.\<close>

definition onChange :: "string \<Rightarrow> session_state world \<Rightarrow> session_state world" where
  "onChange v w = w\<lparr>state := (state w)\<lparr>input := v\<rparr>\<rparr>"

text \<open>A response that is an HTTP 429.\<close>

definition rateLimited :: "response \<Rightarrow> bool" where
  "rateLimited r = (case r of Rejected err \<Rightarrow> is429 err | Resolved t \<Rightarrow> False)"

text \<open>Readings of the effect log.\<close>

definition posts :: "effect list \<Rightarrow> (string \<times> payload) list" where
  "posts es = concat (map (\<lambda>x. case x of Post u p \<Rightarrow> [(u, p)] | _ \<Rightarrow> []) es)"

definition sleeps :: "effect list \<Rightarrow> nat list" where
  "sleeps es = concat (map (\<lambda>x. case x of Sleep ms \<Rightarrow> [ms] | _ \<Rightarrow> []) es)"

definition alerts :: "effect list \<Rightarrow> string list" where
  "alerts es = concat (map (\<lambda>x. case x of Alert m \<Rightarrow> [m] | _ \<Rightarrow> []) es)"

section \<open>The initial state\<close>

text \<open>The default Session State of \<open>App\<close>, and the world of a freshly mounted component.\<close>

definition initialState :: session_state where
  "initialState =
     \<lparr>apiKey = [],
      temperature = Fin 0.7,
      topP = Fin 0.95,
      topK = Fin 40,
      quickReplies = True,
      empathicMode = True,
      model = ''gemini-2.0-flash'',
      chat = [],
      input = [],
      presets =
        [\<lparr>label = ''Empathic'',
          prompt = ''Please listen with empathy and reflect feelings, needs, and offer gentle next steps.''\<rparr>,
         \<lparr>label = ''Coach'',
          prompt = ''Act as a supportive life coach. Ask one clarifying question, then suggest a next action.''\<rparr>,
         \<lparr>label = ''Solution'',
          prompt = ''Be concise and solution-focused: summarize problem in one line; list 3 options; ask for preference.''\<rparr>,
         \<lparr>label = ''Journal'',
          prompt = ''You are a reflective journaling companion. Reframe my thoughts without judgment and suggest a 2-minute exercise.''\<rparr>]\<rparr>"

definition initialWorld :: "session_state world" where
  "initialWorld =
     \<lparr>state = initialState, busy = False, cacheRef = Map.empty, effects = [], clockReads = 0\<rparr>"

text \<open>The Settings panel's \<open>onChange\<close> handlers for the key, two of the parameters and the
  empathic-mode switch.\<close>

definition setApiKey :: "string \<Rightarrow> session_state world \<Rightarrow> session_state world" where
  "setApiKey v w = w\<lparr>state := (state w)\<lparr>apiKey := v\<rparr>\<rparr>"

definition setTemperature :: "jsnum \<Rightarrow> session_state world \<Rightarrow> session_state world" where
  "setTemperature v w = w\<lparr>state := (state w)\<lparr>temperature := v\<rparr>\<rparr>"

definition setTopK :: "jsnum \<Rightarrow> session_state world \<Rightarrow> session_state world" where
  "setTopK v w = w\<lparr>state := (state w)\<lparr>topK := v\<rparr>\<rparr>"

definition setEmpathicMode :: "bool \<Rightarrow> session_state world \<Rightarrow> session_state world" where
  "setEmpathicMode v w = w\<lparr>state := (state w)\<lparr>empathicMode := v\<rparr>\<rparr>"

text \<open>An environment without a key of its own, and a clock whose readings are all alike.\<close>

definition plainEnv :: env where
  "plainEnv = \<lparr>viteKey = [], clock = (\<lambda>n. ''2025-01-01T00:00:00.000Z'')\<rparr>"

text \<open>A fresh component after the user has entered a key in Settings and typed a text.\<close>

definition readyWorld :: "string \<Rightarrow> session_state world" where
  "readyWorld txt = onChange txt (setApiKey ''secret-key'' initialWorld)"

text \<open>The locals of a \<open>send\<close> called in world \<open>w\<close>, as they are when it enters the loop.\<close>

definition firstPending :: "env \<Rightarrow> session_state world \<Rightarrow> pending" where
  "firstPending e w =
     \<lparr>question = trim (input (state w)),
      key_used = effectiveKey e (state w),
      closure = state w,
      enhanced = enhancePrompt (empathicMode (state w))
                   (routeSlashCommand (trim (input (state w)))),
      attempt = 0,
      delay = 1200\<rparr>"

section \<open>Auxiliary notions\<close>

text \<open>A status whose suspended \<open>send\<close>, if there is one, closed over the state \<open>c\<close>.\<close>

definition closed_over :: "session_state \<Rightarrow> status \<Rightarrow> bool" where
  "closed_over c s = (case s of Done \<Rightarrow> True | AwaitPost k \<Rightarrow> closure k = c | AwaitSleep k \<Rightarrow> closure k = c)"

section \<open>Import\<close>

datatype json =
    JNull
  | JBool bool
  | JNumber real
  | JString string
  | JArray "json list"
  | JObject "(string \<times> json) list"

definition truthy :: "json \<Rightarrow> bool" where
  "truthy d =
     (case d of
        JNull \<Rightarrow> False
      | JBool b \<Rightarrow> b
      | JNumber n \<Rightarrow> n \<noteq> 0
      | JString s \<Rightarrow> s \<noteq> []
      | JArray xs \<Rightarrow> True
      | JObject fs \<Rightarrow> True)"

definition typeof :: "json \<Rightarrow> string" where
  "typeof d =
     (case d of
        JNull \<Rightarrow> ''object''
      | JBool b \<Rightarrow> ''boolean''
      | JNumber n \<Rightarrow> ''number''
      | JString s \<Rightarrow> ''string''
      | JArray xs \<Rightarrow> ''object''
      | JObject fs \<Rightarrow> ''object'')"

text \<open>A non-null object in JavaScript's sense, a value that is not \<open>null\<close> and whose
  \<open>typeof\<close> is \<open>"object"\<close>: a JSON object or a JSON array.\<close>

definition isNonNullObject :: "json \<Rightarrow> bool" where
  "isNonNullObject d = (case d of JObject fs \<Rightarrow> True | JArray xs \<Rightarrow> True | _ \<Rightarrow> False)"

text \<open>
  \<open>importChat\<close> on the text of the file. \<open>JSON_parse\<close> stands for \<open>JSON.parse\<close>: the parsed
  value, or the message of the SyntaxError it throws. \<open>setState(data)\<close> stores the parsed
  value itself, so the state here is a JSON value.
\<close>

definition importChat :: "(string \<Rightarrow> string + json) \<Rightarrow> string \<Rightarrow> json world \<Rightarrow> json world" where
  "importChat JSON_parse txt w =
     (case JSON_parse txt of
        Inl m \<Rightarrow> w\<lparr>effects := effects w @ [Alert (''Import failed: '' @ m)]\<rparr>
      | Inr d \<Rightarrow>
          if \<not> truthy d \<or> typeof d \<noteq> ''object''
          then w\<lparr>effects := effects w @ [Alert (''Import failed: '' @ ''Invalid file'')]\<rparr>
          else w\<lparr>state := d\<rparr>)"

text \<open>A stand-in for \<open>JSON.parse\<close> that knows four texts and refuses every other one, and
  a world whose state is a small JSON object.\<close>

definition sampleParse :: "string \<Rightarrow> string + json" where
  "sampleParse txt =
     (if txt = ''{}'' then Inr (JObject [])
      else if txt = ''[]'' then Inr (JArray [])
      else if txt = ''null'' then Inr JNull
      else if txt = ''0'' then Inr (JNumber 0)
      else Inl ''Unexpected token'')"

definition sampleJsonWorld :: "json world" where
  "sampleJsonWorld =
     \<lparr>state = JObject [(''input'', JString ''hi'')], busy = False, cacheRef = Map.empty,
      effects = [], clockReads = 0\<rparr>"

section \<open>Properties of the string operations\<close>

lemma split_str_not_Nil: "split_str s sep \<noteq> []"
  by (induction s) (auto split: list.splits)

lemma hd_split_str: "hd (split_str s sep) = takeWhile (\<lambda>c. c \<noteq> sep) s"
  by (induction s) (auto split: list.splits simp: split_str_not_Nil)

lemma split_str_append: "sep \<notin> set a \<Longrightarrow> split_str (a @ sep # b) sep = a # split_str b sep"
  by (induction a) auto

lemma join_str_Cons: "ps \<noteq> [] \<Longrightarrow> join_str (p # ps) sep = p @ sep # join_str ps sep"
  by (cases ps) auto

lemma join_split_str: "join_str (split_str s sep) sep = s"
proof (induction s)
  case Nil
  then show ?case by simp
next
  case (Cons c cs)
  show ?case
  proof (cases "c = sep")
    case True
    then show ?thesis using Cons by (simp add: join_str_Cons split_str_not_Nil)
  next
    case False
    obtain p ps where ps: "split_str cs sep = p # ps"
      using split_str_not_Nil by (cases "split_str cs sep") auto
    have "join_str ((c # p) # ps) sep = c # join_str (p # ps) sep"
      by (cases ps) auto
    then show ?thesis using False Cons ps by simp
  qed
qed

lemma trimEnd_append:
  "trimEnd (a @ b) = (if \<forall>c\<in>set b. isWhiteSpace c then trimEnd a else a @ trimEnd b)"
  by (simp add: trimEnd_def dropWhile_append)

lemma trimEnd_all_ws: "\<forall>c\<in>set b. isWhiteSpace c \<Longrightarrow> trimEnd b = []"
  by (simp add: trimEnd_def)

lemma trimEnd_sp: "trimEnd (CHR '' '' # b) = (if \<forall>c\<in>set b. isWhiteSpace c then [] else CHR '' '' # trimEnd b)"
  using trimEnd_append[of "'' ''" b] by (simp add: trimEnd_def isWhiteSpace_def)


lemma split_str_no_sep: "sep \<notin> set a \<Longrightarrow> split_str a sep = [a]"
  by (induction a) auto

lemma trimEnd_keep: "s \<noteq> [] \<Longrightarrow> \<not> isWhiteSpace (last s) \<Longrightarrow> trimEnd s = s"
  by (cases s rule: rev_cases) (auto simp: trimEnd_def)

lemma trim_command:
  assumes "w \<noteq> []" "\<forall>c\<in>set w. \<not> isWhiteSpace c"
  shows "trim (CHR ''/'' # w @ CHR '' '' # body) = CHR ''/'' # w @ trimEnd (CHR '' '' # body)"
proof -
  have nws: "\<not> isWhiteSpace CHR ''/''" by (simp add: isWhiteSpace_def)
  have keep: "trimEnd (CHR ''/'' # w) = CHR ''/'' # w"
    using assms by (intro trimEnd_keep) auto
  have "trimEnd ((CHR ''/'' # w) @ (CHR '' '' # body)) = (CHR ''/'' # w) @ trimEnd (CHR '' '' # body)"
    unfolding trimEnd_append[of "CHR ''/'' # w"] using keep trimEnd_all_ws[of "CHR '' '' # body"]
    by auto
  then show ?thesis using nws by (simp add: trim_def trimStart_def)
qed

lemma command_and_body:
  assumes "w \<noteq> []" "\<forall>c\<in>set w. \<not> isWhiteSpace c"
  shows "\<exists>rest. split_str (drop 1 (trim (CHR ''/'' # w @ CHR '' '' # body))) CHR '' '' = w # rest
           \<and> join_str rest CHR '' '' = trimEnd body"
proof -
  have sp: "CHR '' '' \<notin> set w" using assms(2) by (auto simp: isWhiteSpace_def)
  show ?thesis
  proof (cases "\<forall>c\<in>set body. isWhiteSpace c")
    case True
    then have "trimEnd (CHR '' '' # body) = []" "trimEnd body = []"
      by (simp_all add: trimEnd_sp trimEnd_all_ws)
    then show ?thesis using sp
      by (simp add: trim_command[OF assms] split_str_no_sep)
  next
    case False
    then have "trimEnd (CHR '' '' # body) = CHR '' '' # trimEnd body"
      by (simp add: trimEnd_sp)
    then show ?thesis using sp
      by (simp add: trim_command[OF assms] split_str_append join_split_str)
  qed
qed

lemmas lower_eval = toLowerCase_def toLowerChar_def isUpperCase_def

lemma route_template:
  assumes "w \<noteq> []" "\<forall>c\<in>set w. \<not> isWhiteSpace c"
  shows "\<exists>rest. startsWith (trim (CHR ''/'' # w @ CHR '' '' # body)) ''/''
           \<and> split_str (drop 1 (trim (CHR ''/'' # w @ CHR '' '' # body))) CHR '' '' = w # rest
           \<and> join_str rest CHR '' '' = trimEnd body"
  using command_and_body[OF assms, of body] by (simp add: trim_command[OF assms])

lemma whitespace_not_upper: "isWhiteSpace c \<Longrightarrow> toLowerChar c = c"
  by (auto simp: isWhiteSpace_def toLowerChar_def isUpperCase_def)

lemma command_word_no_whitespace:
  assumes "toLowerCase cmd = word" "\<forall>c\<in>set word. \<not> isWhiteSpace c"
  shows "\<forall>c\<in>set cmd. \<not> isWhiteSpace c"
proof
  fix c assume c: "c \<in> set cmd"
  show "\<not> isWhiteSpace c"
  proof
    assume ws: "isWhiteSpace c"
    then have "toLowerChar c = c" by (rule whitespace_not_upper)
    then have "c \<in> set word" using c assms(1) by (force simp: toLowerCase_def)
    then show False using ws assms(2) by blast
  qed
qed

lemma route_known:
  assumes low: "toLowerCase cmd = word" and word: "word \<noteq> []" "\<forall>c\<in>set word. \<not> isWhiteSpace c"
  shows "\<exists>rest. startsWith (trim (CHR ''/'' # cmd @ CHR '' '' # body)) ''/''
           \<and> split_str (drop 1 (trim (CHR ''/'' # cmd @ CHR '' '' # body))) CHR '' '' = cmd # rest
           \<and> join_str rest CHR '' '' = trimEnd body"
proof -
  have "cmd \<noteq> []" using low word(1) by (auto simp: toLowerCase_def)
  moreover have "\<forall>c\<in>set cmd. \<not> isWhiteSpace c"
    using command_word_no_whitespace[OF low word(2)] .
  ultimately show ?thesis by (rule route_template)
qed

lemma route_summarize_any_case:
  assumes "toLowerCase cmd = ''summarize''"
  shows "routeSlashCommand (''/'' @ cmd @ '' '' @ body) =
     ''Summarize this in 3 bullets and 1 next step.'' @ [CHR 0x0A, CHR 0x0A] @ trimEnd body"
  using route_known[OF assms, of body] assms
  by (auto simp: isWhiteSpace_def routeSlashCommand_def)

lemma route_reframe_any_case:
  assumes "toLowerCase cmd = ''reframe''"
  shows "routeSlashCommand (''/'' @ cmd @ '' '' @ body) =
     ''Reframe this thought compassionately and propose one experiment.''
       @ [CHR 0x0A, CHR 0x0A] @ trimEnd body"
  using route_known[OF assms, of body] assms
  by (auto simp: isWhiteSpace_def routeSlashCommand_def)

lemma route_coach_any_case:
  assumes "toLowerCase cmd = ''coach''"
  shows "routeSlashCommand (''/'' @ cmd @ '' '' @ body) =
     ''Act as a supportive coach: ask one clarifying question, then suggest a next action.''
       @ [CHR 0x0A, CHR 0x0A] @ trimEnd body"
  using route_known[OF assms, of body] assms
  by (auto simp: isWhiteSpace_def routeSlashCommand_def)

lemma route_journal_any_case:
  assumes "toLowerCase cmd = ''journal''"
  shows "routeSlashCommand (''/'' @ cmd @ '' '' @ body) =
     ''Help me journal: give a 4-line guided prompt, then hold space for 60 seconds (describe a quick breathing anchor).''
       @ [CHR 0x0A, CHR 0x0A] @ trimEnd body"
  using route_known[OF assms, of body] assms
  by (auto simp: isWhiteSpace_def routeSlashCommand_def)

lemma route_unknown:
  assumes "toLowerCase (takeWhile (\<lambda>c. c \<noteq> CHR '' '') (drop 1 (trim txt)))
             \<notin> {''summarize'', ''reframe'', ''coach'', ''journal''}"
  shows "routeSlashCommand txt = txt"
proof -
  obtain cmd rest where sp: "split_str (drop 1 (trim txt)) CHR '' '' = cmd # rest"
    using split_str_not_Nil by (cases "split_str (drop 1 (trim txt)) CHR '' ''") auto
  then have "cmd = takeWhile (\<lambda>c. c \<noteq> CHR '' '') (drop 1 (trim txt))"
    using hd_split_str[of "drop 1 (trim txt)" "CHR '' ''"] by simp
  then show ?thesis using assms sp
    by (simp add: routeSlashCommand_def Let_def)
qed

lemma route_no_slash: "\<not> startsWith (trim txt) ''/'' \<Longrightarrow> routeSlashCommand txt = txt"
  by (simp add: routeSlashCommand_def)

lemma route_example_known:
  "routeSlashCommand ''/summarize I am stressed'' =
     ''Summarize this in 3 bullets and 1 next step.'' @ [CHR 0x0A, CHR 0x0A] @ ''I am stressed''"
  by (simp add: routeSlashCommand_def trim_def trimStart_def trimEnd_def isWhiteSpace_def
      lower_eval)

lemma route_example_unknown: "routeSlashCommand ''/foo bar'' = ''/foo bar''"
  by (simp add: routeSlashCommand_def trim_def trimStart_def trimEnd_def isWhiteSpace_def
      lower_eval)

section \<open>Properties of the Sentiment Hinter\<close>

lemma startsWith_prefix: "startsWith t w = prefix w t"
  by (induction t w rule: startsWith.induct) auto

lemma includes_str_sublist: "includes_str t w = sublist w t"
  by (induction t) (auto simp: startsWith_prefix sublist_Cons_right)

lemma sublist_across:
  assumes "c \<notin> set w"
  shows "sublist w (a @ c # b) \<longleftrightarrow> sublist w a \<or> sublist w b"
proof
  assume "sublist w (a @ c # b)"
  then consider "sublist w a" | "sublist w (c # b)"
    | xs1 xs2 where "w = xs1 @ xs2" "suffix xs1 a" "prefix xs2 (c # b)"
    unfolding sublist_append by blast
  then show "sublist w a \<or> sublist w b"
  proof cases
    case 1
    then show ?thesis by simp
  next
    case 2
    then have "prefix w (c # b) \<or> sublist w b" by (simp add: sublist_Cons_right)
    moreover have "prefix w (c # b) \<Longrightarrow> w = []"
      using assms by (cases w) auto
    ultimately show ?thesis by auto
  next
    case 3
    have "xs2 = []" using 3(1,3) assms by (cases xs2) auto
    then have "suffix w a" using 3 by simp
    then have "sublist w a" by (rule suffix_imp_sublist)
    then show ?thesis by simp
  qed
next
  assume "sublist w a \<or> sublist w b"
  then show "sublist w (a @ c # b)"
    by (auto simp: sublist_append sublist_Cons_right)
qed

lemma fold_dec: "fold (\<lambda>w s. if P w then s - 1 else s) ws (s0::int) = s0 - int (length (filter P ws))"
  by (induction ws arbitrary: s0) auto

lemma fold_inc: "fold (\<lambda>w s. if P w then s + 1 else s) ws (s0::int) = s0 + int (length (filter P ws))"
  by (induction ws arbitrary: s0) auto

lemma keywords_not_in_empty: "filter (includes_str []) NEG = [] \<and> filter (includes_str []) POS = []"
  by (simp add: NEG_def POS_def)

lemma sentimentScore_count:
  "sentimentScore txt =
     int (length (filter (includes_str (toLowerCase txt)) POS))
     - int (length (filter (includes_str (toLowerCase txt)) NEG))"
proof (cases "txt = []")
  case True
  then show ?thesis using keywords_not_in_empty by (simp add: sentimentScore_def toLowerCase_def)
next
  case False
  then show ?thesis by (simp add: sentimentScore_def fold_dec fold_inc Let_def)
qed

lemma keywords_distinct: "distinct (NEG @ POS)"
  by (simp add: NEG_def POS_def)

lemma keywords_no_space: "\<forall>w\<in>set (NEG @ POS). CHR '' '' \<notin> set w"
  by (simp add: NEG_def POS_def)

lemma keyword_in_keyword: "\<forall>k\<in>set NEG. \<forall>w\<in>set (NEG @ POS). includes_str k w = (w = k)"
  by (simp add: NEG_def POS_def)

lemma filter_add_one:
  "distinct ws \<Longrightarrow> k \<in> set ws \<Longrightarrow> \<not> P k \<Longrightarrow>
     length (filter (\<lambda>w. P w \<or> w = k) ws) = Suc (length (filter P ws))"
proof (induction ws)
  case Nil
  then show ?case by simp
next
  case (Cons a ws)
  show ?case
  proof (cases "a = k")
    case True
    then have "k \<notin> set ws" using Cons.prems by simp
    then have "filter (\<lambda>w. P w \<or> w = k) ws = filter P ws"
      by (intro filter_cong) auto
    then show ?thesis using True Cons.prems by simp
  next
    case False
    then show ?thesis using Cons by auto
  qed
qed


lemma toLowerCase_append: "toLowerCase (a @ b) = toLowerCase a @ toLowerCase b"
  by (simp add: toLowerCase_def)

lemma toLowerCase_space: "toLowerCase (CHR '' '' # b) = CHR '' '' # toLowerCase b"
  by (simp add: lower_eval)

lemma includes_added:
  assumes k: "k \<in> set NEG" and w: "w \<in> set (NEG @ POS)" and low: "toLowerCase k' = k"
  shows "includes_str (toLowerCase (t @ CHR '' '' # k')) w
           \<longleftrightarrow> includes_str (toLowerCase t) w \<or> w = k"
proof -
  have "CHR '' '' \<notin> set w" using w keywords_no_space by blast
  then have "sublist w (toLowerCase t @ CHR '' '' # k)
               \<longleftrightarrow> sublist w (toLowerCase t) \<or> sublist w k"
    by (rule sublist_across)
  moreover have "sublist w k \<longleftrightarrow> w = k"
    using keyword_in_keyword k w unfolding includes_str_sublist by blast
  ultimately show ?thesis
    by (simp add: includes_str_sublist toLowerCase_append toLowerCase_space low)
qed

lemma pos_unchanged:
  assumes k: "k \<in> set NEG" and low: "toLowerCase k' = k"
  shows "filter (includes_str (toLowerCase (t @ CHR '' '' # k'))) POS
           = filter (includes_str (toLowerCase t)) POS"
proof (rule filter_cong[OF refl])
  fix w assume w: "w \<in> set POS"
  then have "w \<noteq> k" using k keywords_distinct by auto
  then show "includes_str (toLowerCase (t @ CHR '' '' # k')) w = includes_str (toLowerCase t) w"
    using includes_added[OF k _ low, of w t] w by simp
qed

lemma neg_filter:
  assumes k: "k \<in> set NEG" and low: "toLowerCase k' = k"
  shows "filter (includes_str (toLowerCase (t @ CHR '' '' # k'))) NEG
           = filter (\<lambda>w. includes_str (toLowerCase t) w \<or> w = k) NEG"
  by (rule filter_cong[OF refl]) (use includes_added[OF k _ low] in simp)

lemma score_new_keyword:
  assumes k: "k \<in> set NEG" and low: "toLowerCase k' = k"
    and new: "\<not> includes_str (toLowerCase t) k"
  shows "sentimentScore (t @ CHR '' '' # k') = sentimentScore t - 1"
proof -
  have "distinct NEG" using keywords_distinct by simp
  then have "length (filter (\<lambda>w. includes_str (toLowerCase t) w \<or> w = k) NEG)
               = Suc (length (filter (includes_str (toLowerCase t)) NEG))"
    using k new by (rule filter_add_one)
  then show ?thesis
    by (simp add: sentimentScore_count pos_unchanged[OF k low] neg_filter[OF k low])
qed

lemma score_old_keyword:
  assumes k: "k \<in> set NEG" and low: "toLowerCase k' = k"
    and old: "includes_str (toLowerCase t) k"
  shows "sentimentScore (t @ CHR '' '' # k') = sentimentScore t"
proof -
  have "filter (\<lambda>w. includes_str (toLowerCase t) w \<or> w = k) NEG
          = filter (includes_str (toLowerCase t)) NEG"
    by (rule filter_cong[OF refl]) (use old in auto)
  then show ?thesis
    by (simp add: sentimentScore_count pos_unchanged[OF k low] neg_filter[OF k low])
qed

lemma includes_after_add:
  assumes k: "k \<in> set NEG" and low: "toLowerCase k' = k"
  shows "includes_str (toLowerCase (t @ CHR '' '' # k')) k"
  using includes_added[OF k _ low, of k t] k by simp

lemma concat_replicate_snoc: "concat (replicate (Suc n) x) = concat (replicate n x) @ x"
  by (induction n) auto

lemma score_repeated_keyword:
  assumes k: "k \<in> set NEG" and low: "toLowerCase k' = k"
    and new: "\<not> includes_str (toLowerCase t) k"
  shows "sentimentScore (t @ concat (replicate (Suc n) (CHR '' '' # k'))) = sentimentScore t - 1"
proof (induction n)
  case 0
  then show ?case using score_new_keyword[OF k low new] by simp
next
  case (Suc n)
  let ?u = "t @ concat (replicate n (CHR '' '' # k'))"
  have split: "t @ concat (replicate (Suc (Suc n)) (CHR '' '' # k'))
                 = (?u @ CHR '' '' # k') @ CHR '' '' # k'"
    by (simp only: concat_replicate_snoc append_assoc)
  have prev: "t @ concat (replicate (Suc n) (CHR '' '' # k')) = ?u @ CHR '' '' # k'"
    by (simp only: concat_replicate_snoc append_assoc)
  have "sentimentScore (t @ concat (replicate (Suc (Suc n)) (CHR '' '' # k')))
          = sentimentScore ((?u @ CHR '' '' # k') @ CHR '' '' # k')"
    by (simp only: split)
  also have "\<dots> = sentimentScore (?u @ CHR '' '' # k')"
    by (rule score_old_keyword[OF k low]) (rule includes_after_add[OF k low])
  also have "\<dots> = sentimentScore (t @ concat (replicate (Suc n) (CHR '' '' # k')))"
    by (simp only: prev)
  also have "\<dots> = sentimentScore t - 1"
    by (rule Suc)
  finally show ?case .
qed

section \<open>Properties of the segments of send\<close>

lemma send_begin_noop:
  "trim (input (state w)) = [] \<or> busy w \<Longrightarrow> send_begin e w = (Done, w)"
  by (auto simp: send_begin_def)

lemma drive_Done: "drive e rs (Done, w) = (Done, w)"
  by (induction rs) (auto simp: deliver_def)

lemma send_begin_nokey:
  assumes "trim (input (state w)) \<noteq> []" "\<not> busy w" "effectiveKey e (state w) = []"
  shows "send_begin e w = (Done, w\<lparr>effects := effects w @
     [Alert ''Missing API key. Paste your Google Generative Language API key in Settings (gear icon).'']\<rparr>)"
  using assms by (simp add: send_begin_def)

lemma send_begin_hit:
  assumes "trim (input (state w)) \<noteq> []" "\<not> busy w" "effectiveKey e (state w) \<noteq> []"
    "cacheRef w (trim (input (state w))) = Some v"
  shows "send_begin e w = (Done,
     w\<lparr>state := (state w)\<lparr>chat := chat (state w) @
         [\<lparr>role = User, content = trim (input (state w)), ts = clock e (clockReads w),
           cached = False, error = False\<rparr>,
          \<lparr>role = Assistant, content = v, ts = clock e (Suc (clockReads w)),
           cached = True, error = False\<rparr>],
         input := []\<rparr>,
       clockReads := Suc (Suc (clockReads w))\<rparr>)"
  using assms by (simp add: send_begin_def appendMessage_def Let_def)

lemma send_begin_miss:
  assumes "trim (input (state w)) \<noteq> []" "\<not> busy w" "effectiveKey e (state w) \<noteq> []"
    "cacheRef w (trim (input (state w))) = None"
  shows "send_begin e w = (AwaitPost (firstPending e w),
     w\<lparr>state := (state w)\<lparr>chat := chat (state w) @
         [\<lparr>role = User, content = trim (input (state w)), ts = clock e (clockReads w),
           cached = False, error = False\<rparr>],
         input := []\<rparr>,
       clockReads := Suc (clockReads w),
       busy := True,
       effects := effects w @ [Post (GEMINI_ENDPOINT (effectiveKey e (state w)))
          (buildPayload (state w) (enhanced (firstPending e w)))]\<rparr>)"
  using assms by (simp add: send_begin_def appendMessage_def Let_def loopHead_def MAX_ATTEMPTS_def firstPending_def)

lemma deliver_retry:
  assumes "rateLimited r" "Suc (attempt k) < 3"
  shows "deliver e r (AwaitPost k, w) =
     (AwaitPost (k\<lparr>attempt := Suc (attempt k), delay := delay k * 2\<rparr>),
      w\<lparr>effects := effects w @ [ConsoleError, Sleep (delay k),
           Post (GEMINI_ENDPOINT (key_used k)) (buildPayload (closure k) (enhanced k))],
        busy := False\<rparr>)"
  using assms
  by (auto simp: deliver_def send_after_post_def onCatch_def send_after_sleep_def loopHead_def
      MAX_ATTEMPTS_def rateLimited_def Let_def split: response.splits)

lemma deliver_exhausted:
  assumes "rateLimited r" "\<not> Suc (attempt k) < 3"
  shows "\<exists>err. r = Rejected err \<and> deliver e r (AwaitPost k, w) =
     (Done,
      w\<lparr>effects := effects w @ [ConsoleError],
        state := (state w)\<lparr>chat := chat (state w) @
          [\<lparr>role = Assistant, content = errorMessage err, ts = clock e (clockReads w),
            cached = False, error = True\<rparr>]\<rparr>,
        clockReads := Suc (clockReads w),
        busy := False\<rparr>)"
  using assms
  by (auto simp: deliver_def send_after_post_def onCatch_def appendMessage_def
      MAX_ATTEMPTS_def rateLimited_def Let_def split: response.splits)

lemma deliver_success:
  assumes "t \<noteq> []"
  shows "deliver e (Resolved (Some t)) (AwaitPost k, w) =
     (Done,
      w\<lparr>cacheRef := (cacheRef w)(question k \<mapsto> wrap (question k) (empathicMode (closure k)) t),
        state := (state w)\<lparr>chat := chat (state w) @
          [\<lparr>role = Assistant, content = wrap (question k) (empathicMode (closure k)) t, ts = clock e (clockReads w),
            cached = False, error = False\<rparr>]\<rparr>,
        clockReads := Suc (clockReads w),
        busy := False\<rparr>)"
  using assms
  by (auto simp: deliver_def send_after_post_def appendMessage_def Let_def)


lemma posts_append: "posts (a @ b) = posts a @ posts b"
  by (simp add: posts_def)

lemma sleeps_append: "sleeps (a @ b) = sleeps a @ sleeps b"
  by (simp add: sleeps_def)

lemma alerts_append: "alerts (a @ b) = alerts a @ alerts b"
  by (simp add: alerts_def)

lemma send_three_429:
  assumes g: "trim (input (state w)) \<noteq> []" "\<not> busy w" "effectiveKey e (state w) \<noteq> []"
    "cacheRef w (trim (input (state w))) = None"
    and r: "rateLimited r1" "rateLimited r2" "rateLimited r3"
  shows "\<exists>err. r3 = Rejected err \<and> send e (r1 # r2 # r3 # rest) w =
    (Done,
     w\<lparr>state := (state w)\<lparr>chat := chat (state w) @
         [\<lparr>role = User, content = trim (input (state w)), ts = clock e (clockReads w),
           cached = False, error = False\<rparr>,
          \<lparr>role = Assistant, content = errorMessage err, ts = clock e (Suc (clockReads w)),
           cached = False, error = True\<rparr>],
         input := []\<rparr>,
       clockReads := Suc (Suc (clockReads w)),
       busy := False,
       effects := effects w @
         [Post (GEMINI_ENDPOINT (effectiveKey e (state w)))
            (buildPayload (state w) (enhanced (firstPending e w))),
          ConsoleError, Sleep 1200,
          Post (GEMINI_ENDPOINT (effectiveKey e (state w)))
            (buildPayload (state w) (enhanced (firstPending e w))),
          ConsoleError, Sleep 2400,
          Post (GEMINI_ENDPOINT (effectiveKey e (state w)))
            (buildPayload (state w) (enhanced (firstPending e w))),
          ConsoleError]\<rparr>)"
proof -
  obtain err where err: "r3 = Rejected err"
    using r(3) by (cases r3) (auto simp: rateLimited_def)
  show ?thesis
    using deliver_exhausted[OF r(3), of _ e] err
    by (simp add: send_def send_begin_miss[OF g] deliver_retry[OF r(1)] deliver_retry[OF r(2)] firstPending_def drive_Done)
qed

lemma trim_example:
  "trim ''hello'' = ''hello''" "trim ''  '' = []" "trim ''again'' = ''again''"
  "trim ''I feel sad'' = ''I feel sad''" "trim '' I feel sad '' = ''I feel sad''"
  by (simp_all add: trim_def trimStart_def trimEnd_def isWhiteSpace_def)

lemmas world_eval = readyWorld_def onChange_def setApiKey_def
  initialWorld_def initialState_def plainEnv_def effectiveKey_def

lemma short_list_cases:
  assumes "length (pre :: 'a list) < 3"
  obtains "pre = []" | r1 where "pre = [r1]" | r1 r2 where "pre = [r1, r2]"
proof (cases pre)
  case Nil
  then show ?thesis using that by simp
next
  case (Cons a as)
  show ?thesis
  proof (cases as)
    case Nil
    then show ?thesis using Cons that by simp
  next
    case (Cons b bs)
    then have "bs = []" using assms \<open>pre = a # as\<close> by simp
    then show ?thesis using Cons \<open>pre = a # as\<close> that by simp
  qed
qed

lemma send_success:
  assumes g: "trim (input (state w)) \<noteq> []" "\<not> busy w" "effectiveKey e (state w) \<noteq> []"
    "cacheRef w (trim (input (state w))) = None"
    and pre: "length pre < 3" "\<forall>r\<in>set pre. rateLimited r" and t: "t \<noteq> []"
  shows "\<exists>es. send e (pre @ Resolved (Some t) # rest) w =
    (Done,
     w\<lparr>state := (state w)\<lparr>chat := chat (state w) @
         [\<lparr>role = User, content = trim (input (state w)), ts = clock e (clockReads w),
           cached = False, error = False\<rparr>,
          \<lparr>role = Assistant,
           content = wrap (trim (input (state w))) (empathicMode (state w)) t,
           ts = clock e (Suc (clockReads w)), cached = False, error = False\<rparr>],
         input := []\<rparr>,
       clockReads := Suc (Suc (clockReads w)),
       busy := False,
       cacheRef := (cacheRef w)(trim (input (state w)) \<mapsto>
                      wrap (trim (input (state w))) (empathicMode (state w)) t),
       effects := effects w @ es\<rparr>)
    \<and> length (posts es) = Suc (length pre)"
proof (cases pre rule: short_list_cases[case_names short zero one two])
  case short
  then show ?case using pre(1) .
next
  case zero
  show ?thesis
    unfolding zero
    by (rule exI[of _ "[Post (GEMINI_ENDPOINT (effectiveKey e (state w)))
            (buildPayload (state w) (enhanced (firstPending e w)))]"])
      (simp add: send_def send_begin_miss[OF g] deliver_success[OF t] firstPending_def posts_def drive_Done)
next
  case (one r1)
  then have r: "rateLimited r1" using pre(2) by simp
  show ?thesis
    unfolding one
    by (rule exI[of _ "[Post (GEMINI_ENDPOINT (effectiveKey e (state w)))
            (buildPayload (state w) (enhanced (firstPending e w))),
          ConsoleError, Sleep 1200,
          Post (GEMINI_ENDPOINT (effectiveKey e (state w)))
            (buildPayload (state w) (enhanced (firstPending e w)))]"])
      (simp add: send_def send_begin_miss[OF g] deliver_retry[OF r] deliver_success[OF t] drive_Done
        firstPending_def posts_def)
next
  case (two r1 r2)
  then have r: "rateLimited r1" "rateLimited r2" using pre(2) by simp_all
  show ?thesis
    unfolding two
    by (rule exI[of _ "[Post (GEMINI_ENDPOINT (effectiveKey e (state w)))
            (buildPayload (state w) (enhanced (firstPending e w))),
          ConsoleError, Sleep 1200,
          Post (GEMINI_ENDPOINT (effectiveKey e (state w)))
            (buildPayload (state w) (enhanced (firstPending e w))),
          ConsoleError, Sleep 2400,
          Post (GEMINI_ENDPOINT (effectiveKey e (state w)))
            (buildPayload (state w) (enhanced (firstPending e w)))]"])
      (simp add: send_def send_begin_miss[OF g] deliver_retry[OF r(1)] deliver_retry[OF r(2)]
        deliver_success[OF t] firstPending_def posts_def drive_Done)
qed

lemma send_hit:
  assumes "trim (input (state w)) \<noteq> []" "\<not> busy w" "effectiveKey e (state w) \<noteq> []"
    "cacheRef w (trim (input (state w))) = Some v"
  shows "send e rs w = (Done,
     w\<lparr>state := (state w)\<lparr>chat := chat (state w) @
         [\<lparr>role = User, content = trim (input (state w)), ts = clock e (clockReads w),
           cached = False, error = False\<rparr>,
          \<lparr>role = Assistant, content = v, ts = clock e (Suc (clockReads w)),
           cached = True, error = False\<rparr>],
         input := []\<rparr>,
       clockReads := Suc (Suc (clockReads w))\<rparr>)"
  by (simp add: send_def send_begin_hit[OF assms] drive_Done)

lemma score_example: "sentimentScore ''I feel sad'' < 0"
  by (simp add: sentimentScore_count NEG_def POS_def lower_eval)

section \<open>Properties of the requests\<close>

lemma or_default_not_NaN: "d \<noteq> NaN \<Longrightarrow> or_default x d \<noteq> NaN"
  by (simp add: or_default_def)

lemma clamp_range:
  "a \<le> b \<Longrightarrow> v \<noteq> NaN \<Longrightarrow>
     js_le (Fin a) (clamp v (Fin a) (Fin b)) \<and> js_le (clamp v (Fin a) (Fin b)) (Fin b)"
  by (cases v) (auto simp: clamp_def Math_min_def Math_max_def)

lemma clamp_Fin: "clamp (Fin x) (Fin a) (Fin b) = Fin (max a (min x b))"
  by (auto simp: clamp_def Math_min_def Math_max_def)

lemma genConfig_range:
  "js_le (Fin 0) (gen_temperature (genConfig st)) \<and> js_le (gen_temperature (genConfig st)) (Fin 2)
   \<and> js_le (Fin 0) (gen_topP (genConfig st)) \<and> js_le (gen_topP (genConfig st)) (Fin 1)
   \<and> js_le (Fin 1) (gen_topK (genConfig st)) \<and> js_le (gen_topK (genConfig st)) (Fin 200)"
  using clamp_range[of 0 2 "or_default (temperature st) (Fin 0.7)"]
    clamp_range[of 0 1 "or_default (topP st) (Fin 0.95)"]
    clamp_range[of 1 200 "or_default (topK st) (Fin 40)"]
  by (simp add: genConfig_def or_default_not_NaN)

lemma genConfig_nonzero:
  "temperature st = Fin x \<Longrightarrow> x \<noteq> 0 \<Longrightarrow> gen_temperature (genConfig st) = Fin (max 0 (min x 2))"
  "topP st = Fin y \<Longrightarrow> y \<noteq> 0 \<Longrightarrow> gen_topP (genConfig st) = Fin (max 0 (min y 1))"
  "topK st = Fin z \<Longrightarrow> z \<noteq> 0 \<Longrightarrow> gen_topK (genConfig st) = Fin (max 1 (min z 200))"
  by (simp_all add: genConfig_def or_default_def clamp_Fin)

lemma genConfig_zero_topK: "topK st = Fin 0 \<Longrightarrow> gen_topK (genConfig st) = Fin 40"
  by (simp add: genConfig_def or_default_def clamp_Fin)

lemma loopHead_posts:
  assumes "loopHead k w = (s', w')"
  shows "closed_over (closure k) s'
     \<and> (\<exists>ps. posts (effects w') = posts (effects w) @ ps
            \<and> (\<forall>(u, p)\<in>set ps. generationConfig p = genConfig (closure k)))"
  using assms
  by (auto simp: loopHead_def closed_over_def posts_def buildPayload_def split: if_splits)

lemma onCatch_posts:
  assumes "onCatch e k err w = (s', w')"
  shows "closed_over (closure k) s' \<and> posts (effects w') = posts (effects w)"
  using assms
  by (auto simp: onCatch_def closed_over_def posts_def appendMessage_def Let_def split: if_splits)

lemma send_after_post_posts:
  assumes "send_after_post e k r w = (s', w')"
  shows "closed_over (closure k) s' \<and> posts (effects w') = posts (effects w)"
proof (cases "\<exists>t. r = Resolved (Some t) \<and> t \<noteq> []")
  case True
  then show ?thesis using assms
    by (auto simp: send_after_post_def closed_over_def appendMessage_def Let_def)
next
  case False
  then have "\<exists>err. send_after_post e k r w = onCatch e k err w"
  proof (cases r)
    case (Resolved x)
    then show ?thesis using False by (cases x) (auto simp: send_after_post_def)
  next
    case (Rejected err)
    then show ?thesis by (auto simp: send_after_post_def)
  qed
  then show ?thesis using assms onCatch_posts by metis
qed

lemma send_after_sleep_posts:
  assumes "send_after_sleep e k w = (s', w')"
  shows "closed_over (closure k) s'
     \<and> (\<exists>ps. posts (effects w') = posts (effects w) @ ps
            \<and> (\<forall>(u, p)\<in>set ps. generationConfig p = genConfig (closure k)))"
  using assms loopHead_posts[of "k\<lparr>delay := delay k * 2\<rparr>" "w\<lparr>busy := False\<rparr>" s' w']
  by (simp add: send_after_sleep_def)

lemma deliver_posts:
  assumes "deliver e r (s, w) = (s', w')" and "closed_over c s"
  shows "closed_over c s'
     \<and> (\<exists>ps. posts (effects w') = posts (effects w) @ ps
            \<and> (\<forall>(u, p)\<in>set ps. generationConfig p = genConfig c))"
proof (cases s)
  case Done
  then show ?thesis using assms by (auto simp: deliver_def)
next
  case (AwaitSleep k)
  then show ?thesis using assms by (auto simp: deliver_def)
next
  case (AwaitPost k)
  then have c: "closure k = c" using assms(2) by (simp add: closed_over_def)
  obtain s1 w1 where p: "send_after_post e k r w = (s1, w1)" by fastforce
  then have p1: "closed_over c s1" "posts (effects w1) = posts (effects w)"
    using send_after_post_posts c by auto
  show ?thesis
  proof (cases s1)
    case (AwaitSleep k1)
    then have "deliver e r (s, w) = send_after_sleep e k1 w1"
      using AwaitPost p by (simp add: deliver_def)
    moreover have "closure k1 = c" using p1(1) AwaitSleep by (simp add: closed_over_def)
    ultimately show ?thesis using send_after_sleep_posts[of e k1 w1 s' w'] assms(1) p1(2) by simp
  next
    case Done
    then have "deliver e r (s, w) = (s1, w1)"
      using AwaitPost p by (simp add: deliver_def)
    then show ?thesis using assms(1) p1 by auto
  next
    case (AwaitPost k1)
    then have "deliver e r (s, w) = (s1, w1)"
      using \<open>s = AwaitPost k\<close> p by (simp add: deliver_def)
    then show ?thesis using assms(1) p1 by auto
  qed
qed

lemma drive_posts:
  assumes "drive e rs (s, w) = (s', w')" and "closed_over c s"
  shows "\<exists>ps. posts (effects w') = posts (effects w) @ ps
            \<and> (\<forall>(u, p)\<in>set ps. generationConfig p = genConfig c)"
  using assms
proof (induction rs arbitrary: s w)
  case Nil
  then show ?case by simp
next
  case (Cons r rs)
  obtain s1 w1 where d: "deliver e r (s, w) = (s1, w1)" by fastforce
  then obtain ps1 where 1: "closed_over c s1" "posts (effects w1) = posts (effects w) @ ps1"
      "\<forall>(u, p)\<in>set ps1. generationConfig p = genConfig c"
    using deliver_posts[OF d Cons.prems(2)] by blast
  have "drive e rs (s1, w1) = (s', w')" using Cons.prems(1) d by simp
  then obtain ps2 where 2: "posts (effects w') = posts (effects w1) @ ps2"
      "\<forall>(u, p)\<in>set ps2. generationConfig p = genConfig c"
    using Cons.IH 1(1) by blast
  have "posts (effects w') = posts (effects w) @ (ps1 @ ps2)" using 1(2) 2(1) by simp
  moreover have "\<forall>(u, p)\<in>set (ps1 @ ps2). generationConfig p = genConfig c"
    using 1(3) 2(2) by auto
  ultimately show ?case by blast
qed

lemma send_begin_posts:
  assumes "send_begin e w = (s', w')"
  shows "closed_over (state w) s'
     \<and> (\<exists>ps. posts (effects w') = posts (effects w) @ ps
            \<and> (\<forall>(u, p)\<in>set ps. generationConfig p = genConfig (state w)))"
proof -
  consider "trim (input (state w)) = [] \<or> busy w"
    | "trim (input (state w)) \<noteq> []" "\<not> busy w" "effectiveKey e (state w) = []"
    | v where "trim (input (state w)) \<noteq> []" "\<not> busy w" "effectiveKey e (state w) \<noteq> []"
        "cacheRef w (trim (input (state w))) = Some v"
    | "trim (input (state w)) \<noteq> []" "\<not> busy w" "effectiveKey e (state w) \<noteq> []"
        "cacheRef w (trim (input (state w))) = None"
    by (cases "cacheRef w (trim (input (state w)))") auto
  then show ?thesis
  proof cases
    case 1
    then show ?thesis using assms by (auto simp: send_begin_noop closed_over_def)
  next
    case 2
    then show ?thesis using assms by (auto simp: send_begin_nokey closed_over_def posts_def)
  next
    case 3
    then show ?thesis using assms by (auto simp: send_begin_hit closed_over_def)
  next
    case 4
    then show ?thesis using assms
      by (auto simp: send_begin_miss closed_over_def posts_def buildPayload_def firstPending_def)
  qed
qed

lemma send_posts:
  assumes "send e rs w = (s', w')"
  shows "\<exists>ps. posts (effects w') = posts (effects w) @ ps
            \<and> (\<forall>(u, p)\<in>set ps. generationConfig p = genConfig (state w))"
proof -
  obtain s1 w1 where b: "send_begin e w = (s1, w1)" by fastforce
  then obtain ps1 where 1: "closed_over (state w) s1" "posts (effects w1) = posts (effects w) @ ps1"
      "\<forall>(u, p)\<in>set ps1. generationConfig p = genConfig (state w)"
    using send_begin_posts by blast
  have "drive e rs (s1, w1) = (s', w')" using assms b by (simp add: send_def)
  then obtain ps2 where 2: "posts (effects w') = posts (effects w1) @ ps2"
      "\<forall>(u, p)\<in>set ps2. generationConfig p = genConfig (state w)"
    using drive_posts 1(1) by blast
  have "posts (effects w') = posts (effects w) @ (ps1 @ ps2)" using 1(2) 2(1) by simp
  moreover have "\<forall>(u, p)\<in>set (ps1 @ ps2). generationConfig p = genConfig (state w)"
    using 1(3) 2(2) by auto
  ultimately show ?thesis by blast
qed

lemma first_request:
  assumes "trim (input (state w)) \<noteq> []" "\<not> busy w" "effectiveKey e (state w) \<noteq> []"
    "cacheRef w (trim (input (state w))) = None"
  shows "posts (effects (snd (send e [] w))) = posts (effects w) @
     [(GEMINI_ENDPOINT (effectiveKey e (state w)),
       buildPayload (state w) (enhanced (firstPending e w)))]"
  by (simp add: send_def send_begin_miss[OF assms] posts_append) (simp add: posts_def)

section \<open>Command routing\<close>

text \<open>
  Claim C5. \<open>routeSlashCommand\<close> expands each of the four recognised commands, written in
  any letter case, into its fixed template followed by the body (the text after the command
  word, to the end of the trimmed input). In particular
  \<open>routeSlashCommand("/summarize I am stressed")\<close> starts with
  \<open>"Summarize this in 3 bullets and 1 next step."\<close> and contains \<open>"I am stressed"\<close>. A text
  whose command token (the trimmed text after the slash, up to the first space, in lower
  case) is none of the four comes back unchanged, as \<open>"/foo bar"\<close> does; so does a text
  that does not start with a slash.
\<close>

theorem routeSlashCommand_expands_or_passes:
  "startsWith (routeSlashCommand ''/summarize I am stressed'')
     ''Summarize this in 3 bullets and 1 next step.''
   \<and> includes_str (routeSlashCommand ''/summarize I am stressed'') ''I am stressed''
   \<and> routeSlashCommand ''/foo bar'' = ''/foo bar''
   \<and> (\<forall>cmd body. toLowerCase cmd = ''summarize'' \<longrightarrow>
         routeSlashCommand (''/'' @ cmd @ '' '' @ body) =
         ''Summarize this in 3 bullets and 1 next step.'' @ [CHR 0x0A, CHR 0x0A] @ trimEnd body)
   \<and> (\<forall>cmd body. toLowerCase cmd = ''reframe'' \<longrightarrow>
         routeSlashCommand (''/'' @ cmd @ '' '' @ body) =
         ''Reframe this thought compassionately and propose one experiment.''
           @ [CHR 0x0A, CHR 0x0A] @ trimEnd body)
   \<and> (\<forall>cmd body. toLowerCase cmd = ''coach'' \<longrightarrow>
         routeSlashCommand (''/'' @ cmd @ '' '' @ body) =
         ''Act as a supportive coach: ask one clarifying question, then suggest a next action.''
           @ [CHR 0x0A, CHR 0x0A] @ trimEnd body)
   \<and> (\<forall>cmd body. toLowerCase cmd = ''journal'' \<longrightarrow>
         routeSlashCommand (''/'' @ cmd @ '' '' @ body) =
         ''Help me journal: give a 4-line guided prompt, then hold space for 60 seconds (describe a quick breathing anchor).''
           @ [CHR 0x0A, CHR 0x0A] @ trimEnd body)
   \<and> (\<forall>txt. startsWith (trim txt) ''/''
          \<and> toLowerCase (takeWhile (\<lambda>c. c \<noteq> CHR '' '') (drop 1 (trim txt)))
               \<notin> {''summarize'', ''reframe'', ''coach'', ''journal''}
          \<longrightarrow> routeSlashCommand txt = txt)
   \<and> (\<forall>txt. \<not> startsWith (trim txt) ''/'' \<longrightarrow> routeSlashCommand txt = txt)"
proof -
  have "startsWith (routeSlashCommand ''/summarize I am stressed'')
          ''Summarize this in 3 bullets and 1 next step.''"
    by (simp add: route_example_known)
  moreover have "includes_str (routeSlashCommand ''/summarize I am stressed'') ''I am stressed''"
    by (simp add: route_example_known)
  ultimately show ?thesis
    using route_example_unknown route_summarize_any_case route_reframe_any_case
      route_coach_any_case route_journal_any_case route_unknown route_no_slash
    by blast
qed

theorem routeSlashCommand_expands_or_passes_witness:
  "startsWith (trim ''/Foo bar'') ''/''
   \<and> toLowerCase (takeWhile (\<lambda>c. c \<noteq> CHR '' '') (drop 1 (trim ''/Foo bar''))) = ''foo''
   \<and> routeSlashCommand ''/Foo bar'' = ''/Foo bar''
   \<and> \<not> startsWith (trim ''hello'') ''/''
   \<and> routeSlashCommand ''hello'' = ''hello''
   \<and> toLowerCase ''Coach'' = ''coach''
   \<and> routeSlashCommand ''/Coach I keep postponing  '' =
       ''Act as a supportive coach: ask one clarifying question, then suggest a next action.''
         @ [CHR 0x0A, CHR 0x0A] @ ''I keep postponing''"
proof -
  have t: "trim ''/Foo bar'' = ''/Foo bar''" "trim ''hello'' = ''hello''"
    by (simp_all add: trim_def trimStart_def trimEnd_def isWhiteSpace_def)
  have tok: "toLowerCase (takeWhile (\<lambda>c. c \<noteq> CHR '' '') (drop 1 (trim ''/Foo bar''))) = ''foo''"
    by (simp add: t lower_eval)
  have s1: "startsWith (trim ''/Foo bar'') ''/''" and s2: "\<not> startsWith (trim ''hello'') ''/''"
    by (simp_all add: t)
  have unknown: "toLowerCase (takeWhile (\<lambda>c. c \<noteq> CHR '' '') (drop 1 (trim ''/Foo bar'')))
                   \<notin> {''summarize'', ''reframe'', ''coach'', ''journal''}"
    unfolding tok by simp
  have low: "toLowerCase ''Coach'' = ''coach''"
    by (simp add: lower_eval)
  have body: "trimEnd ''I keep postponing  '' = ''I keep postponing''"
    by (simp add: trimEnd_def isWhiteSpace_def)
  have "routeSlashCommand ''/Foo bar'' = ''/Foo bar''"
    using routeSlashCommand_expands_or_passes s1 unknown by blast
  moreover have "routeSlashCommand ''hello'' = ''hello''"
    using routeSlashCommand_expands_or_passes s2 by blast
  moreover have "routeSlashCommand (''/'' @ ''Coach'' @ '' '' @ ''I keep postponing  '') =
       ''Act as a supportive coach: ask one clarifying question, then suggest a next action.''
         @ [CHR 0x0A, CHR 0x0A] @ trimEnd ''I keep postponing  ''"
    using routeSlashCommand_expands_or_passes low by blast
  ultimately show ?thesis using tok s1 s2 low body by simp
qed

section \<open>Sentiment score\<close>

text \<open>
  Claim C6, as amended. The score is a function of the text alone: the number of positive
  keywords that occur in the lower-cased text minus the number of negative keywords that
  occur there, each keyword counted once however often it occurs. Adding a negative
  keyword, in any letter case and after a space, once or several times, to a text in
  which it does not occur yet lowers the score by exactly 1. Adding it to a text in which
  it occurs already leaves the score as it is.
\<close>

theorem sentimentScore_counts_presence:
  "sentimentScore txt =
     int (card {w \<in> set POS. sublist w (toLowerCase txt)})
     - int (card {w \<in> set NEG. sublist w (toLowerCase txt)})
   \<and> (\<forall>k\<in>set NEG. \<forall>k' n.
          toLowerCase k' = k \<and> \<not> sublist k (toLowerCase txt) \<longrightarrow>
          sentimentScore (txt @ concat (replicate (Suc n) (CHR '' '' # k')))
            = sentimentScore txt - 1)
   \<and> (\<forall>k\<in>set NEG. \<forall>k'.
          toLowerCase k' = k \<and> sublist k (toLowerCase txt) \<longrightarrow>
          sentimentScore (txt @ CHR '' '' # k') = sentimentScore txt)"
proof -
  have d: "distinct POS" "distinct NEG" using keywords_distinct by simp_all
  have "length (filter (includes_str (toLowerCase txt)) POS)
          = card {w \<in> set POS. sublist w (toLowerCase txt)}"
    unfolding distinct_length_filter[OF d(1)] includes_str_sublist
    by (rule arg_cong[where f = card]) auto
  moreover have "length (filter (includes_str (toLowerCase txt)) NEG)
          = card {w \<in> set NEG. sublist w (toLowerCase txt)}"
    unfolding distinct_length_filter[OF d(2)] includes_str_sublist
    by (rule arg_cong[where f = card]) auto
  ultimately have cnt: "sentimentScore txt =
     int (card {w \<in> set POS. sublist w (toLowerCase txt)})
     - int (card {w \<in> set NEG. sublist w (toLowerCase txt)})"
    by (simp add: sentimentScore_count)
  have rep: "\<And>k k' n. k \<in> set NEG \<Longrightarrow> toLowerCase k' = k \<Longrightarrow> \<not> sublist k (toLowerCase txt)
      \<Longrightarrow> sentimentScore (txt @ concat (replicate (Suc n) (CHR '' '' # k'))) = sentimentScore txt - 1"
    by (rule score_repeated_keyword) (simp_all add: includes_str_sublist)
  have old: "\<And>k k'. k \<in> set NEG \<Longrightarrow> toLowerCase k' = k \<Longrightarrow> sublist k (toLowerCase txt)
      \<Longrightarrow> sentimentScore (txt @ CHR '' '' # k') = sentimentScore txt"
    by (rule score_old_keyword) (simp_all add: includes_str_sublist)
  show ?thesis
    using cnt rep old by blast
qed

theorem sentimentScore_counts_presence_witness:
  "''sad'' \<in> set NEG \<and> toLowerCase ''Sad'' = ''sad''
   \<and> \<not> sublist ''sad'' (toLowerCase ''I am happy'')
   \<and> sentimentScore (''I am happy'' @ concat (replicate (Suc 1) '' Sad''))
       = sentimentScore ''I am happy'' - 1
   \<and> sublist ''sad'' (toLowerCase ''so SAD'')
   \<and> sentimentScore (''so SAD'' @ '' Sad'') = sentimentScore ''so SAD''"
proof -
  have k: "''sad'' \<in> set NEG" by (simp add: NEG_def)
  have low: "toLowerCase ''Sad'' = ''sad''" by (simp add: lower_eval)
  have new: "\<not> sublist ''sad'' (toLowerCase ''I am happy'')"
    unfolding includes_str_sublist[symmetric] by (simp add: lower_eval)
  have old: "sublist ''sad'' (toLowerCase ''so SAD'')"
    unfolding includes_str_sublist[symmetric] by (simp add: lower_eval)
  have "sentimentScore (''I am happy'' @ concat (replicate (Suc 1) (CHR '' '' # ''Sad'')))
          = sentimentScore ''I am happy'' - 1"
    using sentimentScore_counts_presence[of "''I am happy''"] k low new by blast
  moreover have "sentimentScore (''so SAD'' @ CHR '' '' # ''Sad'') = sentimentScore ''so SAD''"
    using sentimentScore_counts_presence[of "''so SAD''"] k low old by blast
  ultimately show ?thesis using k low new old by simp
qed

text \<open>
  Claim C6 as stated fails where the keyword is in the text already: from \<open>"sad"\<close> to
  \<open>"sad sad"\<close> one more occurrence of the negative keyword is added, and the score stays
  at -1.
\<close>

theorem sentimentScore_repetition_counterexample:
  "sentimentScore (''sad'' @ '' sad'') \<noteq> sentimentScore ''sad'' - 1"
  by (simp add: sentimentScore_count NEG_def POS_def lower_eval)

section \<open>The send operation\<close>

text \<open>
  Claim C9. A \<open>send\<close> called while the trimmed input is empty (an empty or a
  white-space-only input) or while the busy flag is set does nothing at all: it returns at
  once and leaves the whole world as it was, so no message is appended, the input field
  keeps its text, the cache is untouched and nothing is requested.
\<close>

theorem send_noop_when_empty_or_busy:
  "trim (input (state w)) = [] \<or> busy w \<Longrightarrow> send e rs w = (Done, w)"
  by (simp add: send_def send_begin_noop drive_Done)

theorem send_noop_when_empty_or_busy_witness:
  "trim (input (state (readyWorld ''  ''))) = []
   \<and> send plainEnv [Resolved (Some ''hi'')] (readyWorld ''  '') = (Done, readyWorld ''  '')
   \<and> busy ((readyWorld ''hello'')\<lparr>busy := True\<rparr>)
   \<and> send plainEnv [Resolved (Some ''hi'')] ((readyWorld ''hello'')\<lparr>busy := True\<rparr>)
       = (Done, (readyWorld ''hello'')\<lparr>busy := True\<rparr>)"
proof -
  have empty: "trim (input (state (readyWorld ''  ''))) = []"
    by (simp add: world_eval trim_example)
  have flag: "busy ((readyWorld ''hello'')\<lparr>busy := True\<rparr>)"
    by simp
  show ?thesis
    using empty flag
      send_noop_when_empty_or_busy[of "readyWorld ''  ''" plainEnv "[Resolved (Some ''hi'')]"]
      send_noop_when_empty_or_busy[of "(readyWorld ''hello'')\<lparr>busy := True\<rparr>" plainEnv
        "[Resolved (Some ''hi'')]"]
    by blast
qed

text \<open>
  Claim C7. With no API key configured (none in the Session State and none in the
  environment) a \<open>send\<close> never reaches the network and never touches the conversation: it
  ends at once, the Session State and the cache are as before and no request is added. When
  there is something to send (the trimmed input is not empty and no other send is busy),
  the one thing that happens is the alert with the missing-key notice.
\<close>

theorem send_without_key:
  assumes "effectiveKey e (state w) = []"
  shows "fst (send e rs w) = Done
    \<and> state (snd (send e rs w)) = state w
    \<and> cacheRef (snd (send e rs w)) = cacheRef w
    \<and> posts (effects (snd (send e rs w))) = posts (effects w)
    \<and> (trim (input (state w)) \<noteq> [] \<and> \<not> busy w \<longrightarrow>
         send e rs w = (Done, w\<lparr>effects := effects w @
           [Alert ''Missing API key. Paste your Google Generative Language API key in Settings (gear icon).'']\<rparr>))"
proof (cases "trim (input (state w)) = [] \<or> busy w")
  case True
  then have "send e rs w = (Done, w)"
    by (simp add: send_def send_begin_noop drive_Done)
  then show ?thesis using True by auto
next
  case False
  then have "send e rs w = (Done, w\<lparr>effects := effects w @
     [Alert ''Missing API key. Paste your Google Generative Language API key in Settings (gear icon).'']\<rparr>)"
    using assms by (simp add: send_def send_begin_nokey drive_Done)
  then show ?thesis by (simp add: posts_append) (simp add: posts_def)
qed

theorem send_without_key_witness:
  "effectiveKey plainEnv (state (onChange ''hello'' initialWorld)) = []
   \<and> trim (input (state (onChange ''hello'' initialWorld))) \<noteq> []
   \<and> \<not> busy (onChange ''hello'' initialWorld)
   \<and> send plainEnv [Resolved (Some ''hi'')] (onChange ''hello'' initialWorld)
       = (Done, (onChange ''hello'' initialWorld)\<lparr>effects :=
           [Alert ''Missing API key. Paste your Google Generative Language API key in Settings (gear icon).'']\<rparr>)
   \<and> chat (state (snd (send plainEnv [Resolved (Some ''hi'')] (onChange ''hello'' initialWorld)))) = []"
proof -
  have nokey: "effectiveKey plainEnv (state (onChange ''hello'' initialWorld)) = []"
    by (simp add: world_eval)
  have guard: "trim (input (state (onChange ''hello'' initialWorld))) \<noteq> []"
    "\<not> busy (onChange ''hello'' initialWorld)"
    by (simp_all add: world_eval trim_example)
  have eff: "effects (onChange ''hello'' initialWorld) = []"
    and ch: "chat (state (onChange ''hello'' initialWorld)) = []"
    by (simp_all add: world_eval)
  show ?thesis
    using send_without_key[OF nokey, of "[Resolved (Some ''hi'')]"] nokey guard eff ch
    by simp
qed

text \<open>
  Claim C1. Take a \<open>send\<close> that reaches the network (non-empty trimmed input, not busy, a
  key, no cache entry) and whose requests are all answered with HTTP 429. It makes exactly
  three requests, all alike, with a sleep of 1200 ms after the first and of 2400 ms after
  the second, and then ends. The conversation has grown by the user's message and by
  exactly one assistant message flagged as an error; nothing was alerted.
\<close>

theorem send_rate_limited_three_attempts:
  assumes "trim (input (state w)) \<noteq> []" and "\<not> busy w"
    and "effectiveKey e (state w) \<noteq> []"
    and "cacheRef w (trim (input (state w))) = None"
    and "3 \<le> length rs" and "\<forall>r\<in>set (take 3 rs). rateLimited r"
  shows "\<exists>w' u p err.
      send e rs w = (Done, w')
    \<and> effects w' = effects w @
        [Post u p, ConsoleError, Sleep 1200, Post u p, ConsoleError, Sleep 2400, Post u p,
         ConsoleError]
    \<and> length (posts (effects w')) = length (posts (effects w)) + 3
    \<and> sleeps (effects w') = sleeps (effects w) @ [1200, 2400]
    \<and> alerts (effects w') = alerts (effects w)
    \<and> rs ! 2 = Rejected err
    \<and> chat (state w') = chat (state w) @
        [\<lparr>role = User, content = trim (input (state w)), ts = clock e (clockReads w),
          cached = False, error = False\<rparr>,
         \<lparr>role = Assistant, content = errorMessage err, ts = clock e (Suc (clockReads w)),
          cached = False, error = True\<rparr>]"
proof -
  obtain r1 r2 r3 rest where rs: "rs = r1 # r2 # r3 # rest"
    using assms(5) by (auto simp: numeral_3_eq_3 Suc_le_length_iff)
  then have r: "rateLimited r1" "rateLimited r2" "rateLimited r3"
    using assms(6) by simp_all
  define u where "u = GEMINI_ENDPOINT (effectiveKey e (state w))"
  define p where "p = buildPayload (state w) (enhanced (firstPending e w))"
  define w' where "w' = snd (send e rs w)"
  obtain err where err: "r3 = Rejected err" and run: "send e (r1 # r2 # r3 # rest) w =
    (Done,
     w\<lparr>state := (state w)\<lparr>chat := chat (state w) @
         [\<lparr>role = User, content = trim (input (state w)), ts = clock e (clockReads w),
           cached = False, error = False\<rparr>,
          \<lparr>role = Assistant, content = errorMessage err, ts = clock e (Suc (clockReads w)),
           cached = False, error = True\<rparr>],
         input := []\<rparr>,
       clockReads := Suc (Suc (clockReads w)),
       busy := False,
       effects := effects w @
         [Post u p, ConsoleError, Sleep 1200, Post u p, ConsoleError, Sleep 2400, Post u p,
          ConsoleError]\<rparr>)"
    unfolding u_def p_def using send_three_429[OF assms(1-4) r, of rest] by blast
  have fin: "send e rs w = (Done, w')"
    by (simp add: w'_def rs run)
  have eff: "effects w' = effects w @
      [Post u p, ConsoleError, Sleep 1200, Post u p, ConsoleError, Sleep 2400, Post u p,
       ConsoleError]"
    by (simp add: w'_def rs run)
  have ch: "chat (state w') = chat (state w) @
      [\<lparr>role = User, content = trim (input (state w)), ts = clock e (clockReads w),
        cached = False, error = False\<rparr>,
       \<lparr>role = Assistant, content = errorMessage err, ts = clock e (Suc (clockReads w)),
        cached = False, error = True\<rparr>]"
    by (simp add: w'_def rs run)
  have third: "rs ! 2 = Rejected err"
    by (simp add: rs err)
  have np: "length (posts (effects w')) = length (posts (effects w)) + 3"
    unfolding eff posts_append by (simp add: posts_def)
  have sl: "sleeps (effects w') = sleeps (effects w) @ [1200, 2400]"
    unfolding eff sleeps_append by (simp add: sleeps_def)
  have al: "alerts (effects w') = alerts (effects w)"
    unfolding eff alerts_append by (simp add: alerts_def)
  show ?thesis
    using fin eff np sl al third ch by blast
qed

theorem send_rate_limited_three_attempts_witness:
  "trim (input (state (readyWorld ''I feel sad''))) \<noteq> []
   \<and> \<not> busy (readyWorld ''I feel sad'')
   \<and> effectiveKey plainEnv (state (readyWorld ''I feel sad'')) \<noteq> []
   \<and> cacheRef (readyWorld ''I feel sad'') (trim (input (state (readyWorld ''I feel sad'')))) = None
   \<and> rateLimited (Rejected (HttpError 429 (Some ''Quota exceeded'')))
   \<and> (\<exists>w'. send plainEnv (replicate 3 (Rejected (HttpError 429 (Some ''Quota exceeded''))))
               (readyWorld ''I feel sad'') = (Done, w')
         \<and> length (posts (effects w')) = 3
         \<and> sleeps (effects w') = [1200, 2400]
         \<and> alerts (effects w') = []
         \<and> chat (state w') =
             [\<lparr>role = User, content = ''I feel sad'', ts = ''2025-01-01T00:00:00.000Z'',
               cached = False, error = False\<rparr>,
              \<lparr>role = Assistant, content = ''Quota exceeded'',
               ts = ''2025-01-01T00:00:00.000Z'', cached = False, error = True\<rparr>])"
proof -
  let ?W = "readyWorld ''I feel sad''"
  let ?rs = "replicate 3 (Rejected (HttpError 429 (Some ''Quota exceeded'')))"
  have q: "trim (input (state ?W)) = ''I feel sad''"
    by (simp add: world_eval trim_example)
  have h1: "trim (input (state ?W)) \<noteq> []" unfolding q by simp
  have h2: "\<not> busy ?W" by (simp add: world_eval)
  have h3: "effectiveKey plainEnv (state ?W) \<noteq> []" by (simp add: world_eval)
  have h4: "cacheRef ?W (trim (input (state ?W))) = None" by (simp add: world_eval)
  have h5: "3 \<le> length ?rs" by simp
  have h6: "\<forall>r\<in>set (take 3 ?rs). rateLimited r"
    by (simp add: rateLimited_def is429_def)
  have third: "?rs ! 2 = Rejected (HttpError 429 (Some ''Quota exceeded''))"
    by (simp add: numeral_3_eq_3)
  have start: "effects ?W = []" "chat (state ?W) = []" "clockReads ?W = 0"
    by (simp_all add: world_eval)
  have msg: "errorMessage (HttpError 429 (Some ''Quota exceeded'')) = ''Quota exceeded''"
    by (simp add: errorMessage_def)
  obtain w' err where
    "send plainEnv ?rs ?W = (Done, w')"
    "length (posts (effects w')) = length (posts (effects ?W)) + 3"
    "sleeps (effects w') = sleeps (effects ?W) @ [1200, 2400]"
    "alerts (effects w') = alerts (effects ?W)"
    "?rs ! 2 = Rejected err"
    "chat (state w') = chat (state ?W) @
        [\<lparr>role = User, content = trim (input (state ?W)), ts = clock plainEnv (clockReads ?W),
          cached = False, error = False\<rparr>,
         \<lparr>role = Assistant, content = errorMessage err,
          ts = clock plainEnv (Suc (clockReads ?W)), cached = False, error = True\<rparr>]"
    using send_rate_limited_three_attempts[OF h1 h2 h3 h4 h5 h6] by blast
  moreover from this third have "err = HttpError 429 (Some ''Quota exceeded'')"
    by simp
  ultimately have "send plainEnv ?rs ?W = (Done, w')
         \<and> length (posts (effects w')) = 3
         \<and> sleeps (effects w') = [1200, 2400]
         \<and> alerts (effects w') = []
         \<and> chat (state w') =
             [\<lparr>role = User, content = ''I feel sad'', ts = ''2025-01-01T00:00:00.000Z'',
               cached = False, error = False\<rparr>,
              \<lparr>role = Assistant, content = ''Quota exceeded'',
               ts = ''2025-01-01T00:00:00.000Z'', cached = False, error = True\<rparr>]"
    by (simp add: start msg q posts_def sleeps_def alerts_def plainEnv_def)
  moreover have "rateLimited (Rejected (HttpError 429 (Some ''Quota exceeded'')))"
    by (simp add: rateLimited_def is429_def)
  ultimately show ?thesis using h1 h2 h3 h4 by blast
qed

section \<open>The Response Cache\<close>

text \<open>
  Claim C4. Let a first \<open>send\<close> reach the network and succeed, at once or after one or two
  HTTP 429 retries. Then the cache holds, under the trimmed input, the text the first
  \<open>send\<close> displayed. Any later \<open>send\<close> in the session whose input trims to the same
  string (whatever the mode switches are by then, so whatever prompt would be composed)
  issues no request. Unless it is blocked by the busy flag or a missing key, it appends the
  user's message and an assistant message that carries the cached text and
  \<open>cached = true\<close>, clears the input and changes nothing else.
\<close>

theorem cached_response_replayed:
  assumes "trim (input (state w)) \<noteq> []" and "\<not> busy w"
    and "effectiveKey e (state w) \<noteq> []"
    and "cacheRef w (trim (input (state w))) = None"
    and "length pre < 3" and "\<forall>r\<in>set pre. rateLimited r" and "t \<noteq> []"
    and "send e (pre @ [Resolved (Some t)]) w = (s1, w1)"
    and "trim (input (state w2)) = trim (input (state w))"
    and "cacheRef w2 (trim (input (state w))) = cacheRef w1 (trim (input (state w)))"
  shows "\<exists>v. cacheRef w1 (trim (input (state w))) = Some v
    \<and> content (last (chat (state w1))) = v
    \<and> posts (effects (snd (send e2 rs2 w2))) = posts (effects w2)
    \<and> (\<not> busy w2 \<and> effectiveKey e2 (state w2) \<noteq> [] \<longrightarrow>
         send e2 rs2 w2 =
           (Done,
            w2\<lparr>state := (state w2)\<lparr>chat := chat (state w2) @
                [\<lparr>role = User, content = trim (input (state w)),
                  ts = clock e2 (clockReads w2), cached = False, error = False\<rparr>,
                 \<lparr>role = Assistant, content = v, ts = clock e2 (Suc (clockReads w2)),
                  cached = True, error = False\<rparr>],
                input := []\<rparr>,
              clockReads := Suc (Suc (clockReads w2))\<rparr>))"
proof -
  let ?q = "trim (input (state w))"
  let ?v = "wrap ?q (empathicMode (state w)) t"
  obtain es where first: "send e (pre @ [Resolved (Some t)]) w =
    (Done,
     w\<lparr>state := (state w)\<lparr>chat := chat (state w) @
         [\<lparr>role = User, content = ?q, ts = clock e (clockReads w),
           cached = False, error = False\<rparr>,
          \<lparr>role = Assistant, content = ?v,
           ts = clock e (Suc (clockReads w)), cached = False, error = False\<rparr>],
         input := []\<rparr>,
       clockReads := Suc (Suc (clockReads w)),
       busy := False,
       cacheRef := (cacheRef w)(?q \<mapsto> ?v),
       effects := effects w @ es\<rparr>)"
    using send_success[OF assms(1-7), of "[]"] by blast
  have c1: "cacheRef w1 ?q = Some ?v" and m1: "content (last (chat (state w1))) = ?v"
    using first assms(8) by auto
  have hit: "cacheRef w2 (trim (input (state w2))) = Some ?v"
    using c1 assms(9,10) by simp
  have g2: "trim (input (state w2)) \<noteq> []" using assms(1,9) by simp
  have second: "send e2 rs2 w2 =
        (Done,
         w2\<lparr>state := (state w2)\<lparr>chat := chat (state w2) @
             [\<lparr>role = User, content = ?q, ts = clock e2 (clockReads w2),
               cached = False, error = False\<rparr>,
              \<lparr>role = Assistant, content = ?v, ts = clock e2 (Suc (clockReads w2)),
               cached = True, error = False\<rparr>],
             input := []\<rparr>,
           clockReads := Suc (Suc (clockReads w2))\<rparr>)"
    if "\<not> busy w2" "effectiveKey e2 (state w2) \<noteq> []"
    using send_hit[OF g2 that hit, of rs2] assms(9) by simp
  have quiet: "posts (effects (snd (send e2 rs2 w2))) = posts (effects w2)"
  proof (cases "busy w2")
    case True
    then show ?thesis by (simp add: send_def send_begin_noop drive_Done)
  next
    case False
    show ?thesis
    proof (cases "effectiveKey e2 (state w2) = []")
      case True
      then show ?thesis
        using g2 False
        by (simp add: send_def send_begin_nokey drive_Done posts_append) (simp add: posts_def)
    next
      case key: False
      show ?thesis unfolding second[OF False key] by simp
    qed
  qed
  show ?thesis using c1 m1 quiet second by blast
qed

theorem cached_response_replayed_witness:
  "trim (input (state (readyWorld ''I feel sad''))) = ''I feel sad''
   \<and> rateLimited (Rejected (HttpError 429 None))
   \<and> fst (send plainEnv [Rejected (HttpError 429 None), Resolved (Some ''I hear you.'')]
            (readyWorld ''I feel sad'')) = Done
   \<and> trim (input (state (onChange '' I feel sad '' (setEmpathicMode False
        (snd (send plainEnv [Rejected (HttpError 429 None), Resolved (Some ''I hear you.'')]
               (readyWorld ''I feel sad''))))))) = ''I feel sad''
   \<and> fst (send plainEnv [Resolved (Some ''something else'')]
        (onChange '' I feel sad '' (setEmpathicMode False
          (snd (send plainEnv [Rejected (HttpError 429 None), Resolved (Some ''I hear you.'')]
                 (readyWorld ''I feel sad'')))))) = Done
   \<and> last (chat (state (snd (send plainEnv [Resolved (Some ''something else'')]
        (onChange '' I feel sad '' (setEmpathicMode False
          (snd (send plainEnv [Rejected (HttpError 429 None), Resolved (Some ''I hear you.'')]
                 (readyWorld ''I feel sad'')))))))))
       = \<lparr>role = Assistant, content = empathicHeader @ ''I hear you.'',
          ts = ''2025-01-01T00:00:00.000Z'', cached = True, error = False\<rparr>
   \<and> length (posts (effects (snd (send plainEnv [Resolved (Some ''something else'')]
        (onChange '' I feel sad '' (setEmpathicMode False
          (snd (send plainEnv [Rejected (HttpError 429 None), Resolved (Some ''I hear you.'')]
                 (readyWorld ''I feel sad'')))))))))
       = 2"
proof -
  let ?W = "readyWorld ''I feel sad''"
  let ?r = "Rejected (HttpError 429 None)"
  let ?rs2 = "[Resolved (Some ''something else'')]"
  define w1 where "w1 = snd (send plainEnv ([?r] @ [Resolved (Some ''I hear you.'')]) ?W)"
  define w2 where "w2 = onChange '' I feel sad '' (setEmpathicMode False w1)"
  have q: "trim (input (state ?W)) = ''I feel sad''"
    by (simp add: world_eval trim_example)
  have g: "trim (input (state ?W)) \<noteq> []" "\<not> busy ?W" "effectiveKey plainEnv (state ?W) \<noteq> []"
    "cacheRef ?W (trim (input (state ?W))) = None"
    by (simp_all add: world_eval trim_example)
  have pre: "length [?r] < 3" "\<forall>r\<in>set [?r]. rateLimited r" and t: "''I hear you.'' \<noteq> []"
    by (simp_all add: rateLimited_def is429_def)
  have start: "effects ?W = []" "apiKey (state ?W) = ''secret-key''" "empathicMode (state ?W)"
    by (simp_all add: world_eval)
  obtain es where first: "send plainEnv ([?r] @ Resolved (Some ''I hear you.'') # []) ?W =
    (Done,
     ?W\<lparr>state := (state ?W)\<lparr>chat := chat (state ?W) @
         [\<lparr>role = User, content = trim (input (state ?W)), ts = clock plainEnv (clockReads ?W),
           cached = False, error = False\<rparr>,
          \<lparr>role = Assistant,
           content = wrap (trim (input (state ?W))) (empathicMode (state ?W)) ''I hear you.'',
           ts = clock plainEnv (Suc (clockReads ?W)), cached = False, error = False\<rparr>],
         input := []\<rparr>,
       clockReads := Suc (Suc (clockReads ?W)),
       busy := False,
       cacheRef := (cacheRef ?W)(trim (input (state ?W)) \<mapsto>
                      wrap (trim (input (state ?W))) (empathicMode (state ?W)) ''I hear you.''),
       effects := effects ?W @ es\<rparr>)"
    and n: "length (posts es) = Suc (length [?r])"
    using send_success[OF g pre t, of "[]"] by blast
  have run1: "send plainEnv ([?r] @ [Resolved (Some ''I hear you.'')]) ?W = (Done, w1)"
    unfolding w1_def using first by simp
  have w1: "\<not> busy w1" "apiKey (state w1) = ''secret-key''"
    "length (posts (effects w1)) = 2"
    unfolding w1_def using first n by (simp_all add: start posts_append)
  have h9: "trim (input (state w2)) = trim (input (state ?W))"
    unfolding q by (simp add: w2_def onChange_def trim_example)
  have h10: "\<not> busy w2" using w1(1) by (simp add: w2_def onChange_def setEmpathicMode_def)
  have h11: "effectiveKey plainEnv (state w2) \<noteq> []"
    using w1(2) by (simp add: w2_def onChange_def setEmpathicMode_def effectiveKey_def)
  have h12: "cacheRef w2 (trim (input (state ?W))) = cacheRef w1 (trim (input (state ?W)))"
    by (simp add: w2_def onChange_def setEmpathicMode_def)
  have eff2: "effects w2 = effects w1" and clk: "clock plainEnv = (\<lambda>n. ''2025-01-01T00:00:00.000Z'')"
    by (simp_all add: w2_def onChange_def setEmpathicMode_def plainEnv_def)
  obtain v where v: "content (last (chat (state w1))) = v"
    and second: "send plainEnv ?rs2 w2 =
        (Done,
         w2\<lparr>state := (state w2)\<lparr>chat := chat (state w2) @
             [\<lparr>role = User, content = trim (input (state ?W)), ts = clock plainEnv (clockReads w2),
               cached = False, error = False\<rparr>,
              \<lparr>role = Assistant, content = v, ts = clock plainEnv (Suc (clockReads w2)),
               cached = True, error = False\<rparr>],
             input := []\<rparr>,
           clockReads := Suc (Suc (clockReads w2))\<rparr>)"
    and np: "posts (effects (snd (send plainEnv ?rs2 w2))) = posts (effects w2)"
    using cached_response_replayed[OF g pre t run1 h9 h12, of plainEnv ?rs2] h10 h11 by blast
  have "content (last (chat (state w1))) = empathicHeader @ ''I hear you.''"
    unfolding w1_def using first by (simp add: wrap_def q score_example start)
  then have v': "v = empathicHeader @ ''I hear you.''" using v by simp
  have a: "fst (send plainEnv ?rs2 w2) = Done"
    and b: "last (chat (state (snd (send plainEnv ?rs2 w2))))
       = \<lparr>role = Assistant, content = empathicHeader @ ''I hear you.'',
          ts = ''2025-01-01T00:00:00.000Z'', cached = True, error = False\<rparr>"
    unfolding second by (simp_all add: v' clk)
  have c: "length (posts (effects (snd (send plainEnv ?rs2 w2)))) = 2"
    using np eff2 w1(3) by simp
  have d: "trim (input (state w2)) = ''I feel sad''" using h9 q by simp
  have e: "fst (send plainEnv ([?r] @ [Resolved (Some ''I hear you.'')]) ?W) = Done"
    using run1 by simp
  have f: "rateLimited ?r" using pre(2) by simp
  show ?thesis
    using q f e d a b c unfolding w2_def w1_def by simp
qed

text \<open>
  Claim C10. When a request of a \<open>send\<close> succeeds (at the first attempt or after one or two
  HTTP 429 retries), the \<open>send\<close> ends, and the text of the assistant message it appends is
  the model's text, under the empathic header when the user's input scores negative and
  empathic mode is on. The cache then holds exactly that text under the trimmed input, so
  a later cache hit for the same input appends a message with exactly the text the user
  saw, flagged as cached.
\<close>

theorem cache_holds_displayed_text:
  assumes "trim (input (state w)) \<noteq> []" and "\<not> busy w"
    and "effectiveKey e (state w) \<noteq> []"
    and "cacheRef w (trim (input (state w))) = None"
    and "length pre < 3" and "\<forall>r\<in>set pre. rateLimited r" and "t \<noteq> []"
    and "send e (pre @ Resolved (Some t) # rest) w = (s1, w1)"
  shows "s1 = Done
    \<and> chat (state w1) = chat (state w) @
        [\<lparr>role = User, content = trim (input (state w)), ts = clock e (clockReads w),
          cached = False, error = False\<rparr>,
         \<lparr>role = Assistant,
          content = (if sentimentScore (trim (input (state w))) < 0 \<and> empathicMode (state w)
                     then empathicHeader @ t else t),
          ts = clock e (Suc (clockReads w)), cached = False, error = False\<rparr>]
    \<and> cacheRef w1 (trim (input (state w))) = Some (content (last (chat (state w1))))
    \<and> (\<forall>e2 w2.
          trim (input (state w2)) = trim (input (state w)) \<and> \<not> busy w2
          \<and> effectiveKey e2 (state w2) \<noteq> []
          \<and> cacheRef w2 (trim (input (state w))) = cacheRef w1 (trim (input (state w)))
          \<longrightarrow> content (last (chat (state (snd (send_begin e2 w2)))))
                = content (last (chat (state w1)))
              \<and> cached (last (chat (state (snd (send_begin e2 w2))))))"
proof -
  let ?q = "trim (input (state w))"
  let ?v = "wrap ?q (empathicMode (state w)) t"
  obtain es where first: "send e (pre @ Resolved (Some t) # rest) w =
    (Done,
     w\<lparr>state := (state w)\<lparr>chat := chat (state w) @
         [\<lparr>role = User, content = ?q, ts = clock e (clockReads w),
           cached = False, error = False\<rparr>,
          \<lparr>role = Assistant, content = ?v,
           ts = clock e (Suc (clockReads w)), cached = False, error = False\<rparr>],
         input := []\<rparr>,
       clockReads := Suc (Suc (clockReads w)),
       busy := False,
       cacheRef := (cacheRef w)(?q \<mapsto> ?v),
       effects := effects w @ es\<rparr>)"
    using send_success[OF assms(1-7), of rest] by blast
  have v: "?v = (if sentimentScore ?q < 0 \<and> empathicMode (state w) then empathicHeader @ t else t)"
    by (simp add: wrap_def)
  have s1: "s1 = Done" using first assms(8) by simp
  have ch: "chat (state w1) = chat (state w) @
        [\<lparr>role = User, content = ?q, ts = clock e (clockReads w),
          cached = False, error = False\<rparr>,
         \<lparr>role = Assistant, content = ?v,
          ts = clock e (Suc (clockReads w)), cached = False, error = False\<rparr>]"
    using first assms(8) by auto
  have c1: "cacheRef w1 ?q = Some ?v"
    using first assms(8) by auto
  have m1: "content (last (chat (state w1))) = ?v"
    unfolding ch by simp
  have replay: "content (last (chat (state (snd (send_begin e2 w2))))) = ?v
              \<and> cached (last (chat (state (snd (send_begin e2 w2)))))"
    if "trim (input (state w2)) = ?q" "\<not> busy w2" "effectiveKey e2 (state w2) \<noteq> []"
      "cacheRef w2 ?q = cacheRef w1 ?q" for e2 w2
  proof -
    have hit: "cacheRef w2 (trim (input (state w2))) = Some ?v"
      using c1 that(1,4) by simp
    have g2: "trim (input (state w2)) \<noteq> []" using assms(1) that(1) by simp
    show ?thesis
      by (simp add: send_begin_hit[OF g2 that(2,3) hit])
  qed
  show ?thesis
    using s1 ch[unfolded v] c1 m1 replay by (simp add: v)
qed

theorem cache_holds_displayed_text_witness:
  "trim (input (state (readyWorld ''I feel sad''))) = ''I feel sad''
   \<and> sentimentScore ''I feel sad'' < 0
   \<and> fst (send plainEnv [Resolved (Some ''I hear you.'')] (readyWorld ''I feel sad'')) = Done
   \<and> cacheRef (snd (send plainEnv [Resolved (Some ''I hear you.'')] (readyWorld ''I feel sad'')))
        ''I feel sad'' = Some (empathicHeader @ ''I hear you.'')
   \<and> last (chat (state (snd (send plainEnv [Resolved (Some ''I hear you.'')]
                               (readyWorld ''I feel sad'')))))
       = \<lparr>role = Assistant, content = empathicHeader @ ''I hear you.'',
          ts = ''2025-01-01T00:00:00.000Z'', cached = False, error = False\<rparr>"
proof -
  let ?W = "readyWorld ''I feel sad''"
  let ?rs = "[] @ Resolved (Some ''I hear you.'') # []"
  have q: "trim (input (state ?W)) = ''I feel sad''"
    by (simp add: world_eval trim_example)
  have g: "trim (input (state ?W)) \<noteq> []" "\<not> busy ?W" "effectiveKey plainEnv (state ?W) \<noteq> []"
    "cacheRef ?W (trim (input (state ?W))) = None"
    by (simp_all add: world_eval trim_example)
  have pre: "length ([] :: response list) < 3" "\<forall>r\<in>set ([] :: response list). rateLimited r"
    and t: "''I hear you.'' \<noteq> []"
    by simp_all
  have start: "chat (state ?W) = []" "empathicMode (state ?W)"
    and clk: "clock plainEnv = (\<lambda>n. ''2025-01-01T00:00:00.000Z'')"
    by (simp_all add: world_eval)
  have run: "send plainEnv ?rs ?W = (fst (send plainEnv ?rs ?W), snd (send plainEnv ?rs ?W))"
    by simp
  note main = cache_holds_displayed_text[OF g pre t run]
  have a: "fst (send plainEnv ?rs ?W) = Done" using main by blast
  have ch: "chat (state (snd (send plainEnv ?rs ?W))) =
        [\<lparr>role = User, content = ''I feel sad'', ts = ''2025-01-01T00:00:00.000Z'',
          cached = False, error = False\<rparr>,
         \<lparr>role = Assistant, content = empathicHeader @ ''I hear you.'',
          ts = ''2025-01-01T00:00:00.000Z'', cached = False, error = False\<rparr>]"
    using main by (simp add: q start clk score_example)
  have c: "cacheRef (snd (send plainEnv ?rs ?W)) ''I feel sad''
             = Some (content (last (chat (state (snd (send plainEnv ?rs ?W))))))"
    using main unfolding q by blast
  show ?thesis
    using q score_example a c ch by simp
qed

section \<open>The busy flag\<close>

text \<open>
  Claim C3 does not hold of the code. The \<open>finally\<close> block sits inside the loop, so the
  \<open>continue\<close> after the first backoff clears the busy flag. Below, the first request of a
  \<open>send\<close> is answered with HTTP 429 and the 1200 ms timer has fired: the second request
  is in flight and the busy flag is down. It stays down through the second backoff. A
  second \<open>send\<close>, called now with a new input, is not blocked: it issues a request of its
  own, the third in the log.
\<close>

theorem busy_flag_down_while_retrying:
  "\<exists>k w. send plainEnv [Rejected (HttpError 429 None)] (readyWorld ''hello'') = (AwaitPost k, w)
     \<and> attempt k = 1
     \<and> length (posts (effects w)) = 2
     \<and> \<not> busy w
     \<and> (\<exists>k1 w1. send_after_post plainEnv k (Rejected (HttpError 429 None)) w = (AwaitSleep k1, w1)
            \<and> sleeps (effects w1) = [1200, 2400]
            \<and> \<not> busy w1)
     \<and> (\<exists>k2 w2. send_begin plainEnv (onChange ''again'' w) = (AwaitPost k2, w2)
            \<and> question k2 = ''again''
            \<and> length (posts (effects w2)) = 3)"
proof -
  let ?W = "readyWorld ''hello''"
  let ?r = "Rejected (HttpError 429 None)"
  have g: "trim (input (state ?W)) \<noteq> []" "\<not> busy ?W" "effectiveKey plainEnv (state ?W) \<noteq> []"
    "cacheRef ?W (trim (input (state ?W))) = None"
    by (simp_all add: world_eval trim_example)
  have rl: "rateLimited ?r" by (simp add: rateLimited_def is429_def)
  define k where "k = (firstPending plainEnv ?W)\<lparr>attempt := Suc 0, delay := 2400\<rparr>"
  define w where "w = snd (send plainEnv [?r] ?W)"
  have run: "send plainEnv [?r] ?W = (AwaitPost k, w)"
    unfolding w_def k_def
    by (simp add: send_def send_begin_miss[OF g] deliver_retry[OF rl] firstPending_def)
  have w: "w = snd (deliver plainEnv ?r (send_begin plainEnv ?W))"
    by (simp add: w_def send_def)
  have eff: "effects ?W = []" by (simp add: world_eval)
  have nb: "\<not> busy w"
    unfolding w by (simp add: send_begin_miss[OF g] deliver_retry[OF rl] firstPending_def)
  have np: "length (posts (effects w)) = 2"
    unfolding w
    by (simp add: send_begin_miss[OF g] deliver_retry[OF rl] firstPending_def eff posts_def)
  have sl: "sleeps (effects w) = [1200]"
    unfolding w
    by (simp add: send_begin_miss[OF g] deliver_retry[OF rl] firstPending_def eff sleeps_def)
  have at: "attempt k = 1" "delay k = 2400" by (simp_all add: k_def)
  have second: "send_after_post plainEnv k ?r w =
      (AwaitSleep (k\<lparr>attempt := 2\<rparr>), w\<lparr>effects := effects w @ [ConsoleError, Sleep 2400]\<rparr>)"
    by (simp add: send_after_post_def onCatch_def is429_def MAX_ATTEMPTS_def at Let_def)
  have b2: "sleeps (effects (w\<lparr>effects := effects w @ [ConsoleError, Sleep 2400]\<rparr>)) = [1200, 2400]"
    "\<not> busy (w\<lparr>effects := effects w @ [ConsoleError, Sleep 2400]\<rparr>)"
    using nb sl by (simp_all add: sleeps_append) (simp add: sleeps_def)
  have start: "cacheRef ?W = Map.empty" "apiKey (state ?W) = ''secret-key''"
    by (simp_all add: world_eval)
  have cache: "cacheRef w = Map.empty"
    unfolding w
    by (simp add: send_begin_miss[OF g] deliver_retry[OF rl] firstPending_def start)
  have key: "effectiveKey plainEnv (state w) \<noteq> []"
    unfolding w
    by (simp add: send_begin_miss[OF g] deliver_retry[OF rl] firstPending_def start
        effectiveKey_def)
  have g2: "trim (input (state (onChange ''again'' w))) \<noteq> []" "\<not> busy (onChange ''again'' w)"
    "effectiveKey plainEnv (state (onChange ''again'' w)) \<noteq> []"
    "cacheRef (onChange ''again'' w) (trim (input (state (onChange ''again'' w)))) = None"
    using nb cache key by (auto simp: onChange_def trim_example effectiveKey_def)
  have third: "fst (send_begin plainEnv (onChange ''again'' w))
                 = AwaitPost (firstPending plainEnv (onChange ''again'' w))"
    "length (posts (effects (snd (send_begin plainEnv (onChange ''again'' w))))) = 3"
  proof -
    show "fst (send_begin plainEnv (onChange ''again'' w))
            = AwaitPost (firstPending plainEnv (onChange ''again'' w))"
      by (simp add: send_begin_miss[OF g2])
    have "effects (onChange ''again'' w) = effects w" by (simp add: onChange_def)
    then show "length (posts (effects (snd (send_begin plainEnv (onChange ''again'' w))))) = 3"
      using np by (simp add: send_begin_miss[OF g2] posts_append) (simp add: posts_def)
  qed
  have q: "question (firstPending plainEnv (onChange ''again'' w)) = ''again''"
    by (simp add: firstPending_def onChange_def trim_example)
  have "\<exists>k2 w2. send_begin plainEnv (onChange ''again'' w) = (AwaitPost k2, w2)
            \<and> question k2 = ''again'' \<and> length (posts (effects w2)) = 3"
    using third q by (metis prod.collapse)
  then show ?thesis using run at(1) np nb second b2 by blast
qed

section \<open>Generation parameters\<close>

text \<open>
  Claim C2, as amended. Every request a \<open>send\<close> makes carries generation parameters that
  lie in range whatever the stored values are: temperature in [0,2], topP in [0,1], topK
  in [1,200]. A stored value that is a number other than zero is sent clamped into its
  range, so a stored temperature of 5 is sent as 2. A stored topK of 0 is sent as the
  default 40.
\<close>

theorem generation_parameters_sent:
  assumes "send e rs w = (s', w')"
  shows "\<exists>ps. posts (effects w') = posts (effects w) @ ps
    \<and> (\<forall>(u, p)\<in>set ps.
          js_le (Fin 0) (gen_temperature (generationConfig p))
        \<and> js_le (gen_temperature (generationConfig p)) (Fin 2)
        \<and> js_le (Fin 0) (gen_topP (generationConfig p))
        \<and> js_le (gen_topP (generationConfig p)) (Fin 1)
        \<and> js_le (Fin 1) (gen_topK (generationConfig p))
        \<and> js_le (gen_topK (generationConfig p)) (Fin 200)
        \<and> (\<forall>x. temperature (state w) = Fin x \<and> x \<noteq> 0 \<longrightarrow>
               gen_temperature (generationConfig p) = Fin (max 0 (min x 2)))
        \<and> (\<forall>x. topP (state w) = Fin x \<and> x \<noteq> 0 \<longrightarrow>
               gen_topP (generationConfig p) = Fin (max 0 (min x 1)))
        \<and> (\<forall>x. topK (state w) = Fin x \<and> x \<noteq> 0 \<longrightarrow>
               gen_topK (generationConfig p) = Fin (max 1 (min x 200)))
        \<and> (temperature (state w) = Fin 5 \<longrightarrow> gen_temperature (generationConfig p) = Fin 2)
        \<and> (topK (state w) = Fin 0 \<longrightarrow> gen_topK (generationConfig p) = Fin 40))"
proof -
  obtain ps where ps: "posts (effects w') = posts (effects w) @ ps"
      "\<forall>(u, p)\<in>set ps. generationConfig p = genConfig (state w)"
    using send_posts[OF assms] by blast
  have five: "temperature (state w) = Fin 5 \<Longrightarrow> gen_temperature (genConfig (state w)) = Fin 2"
    using genConfig_nonzero(1)[of "state w" 5] by simp
  have "\<forall>(u, p)\<in>set ps.
          js_le (Fin 0) (gen_temperature (generationConfig p))
        \<and> js_le (gen_temperature (generationConfig p)) (Fin 2)
        \<and> js_le (Fin 0) (gen_topP (generationConfig p))
        \<and> js_le (gen_topP (generationConfig p)) (Fin 1)
        \<and> js_le (Fin 1) (gen_topK (generationConfig p))
        \<and> js_le (gen_topK (generationConfig p)) (Fin 200)
        \<and> (\<forall>x. temperature (state w) = Fin x \<and> x \<noteq> 0 \<longrightarrow>
               gen_temperature (generationConfig p) = Fin (max 0 (min x 2)))
        \<and> (\<forall>x. topP (state w) = Fin x \<and> x \<noteq> 0 \<longrightarrow>
               gen_topP (generationConfig p) = Fin (max 0 (min x 1)))
        \<and> (\<forall>x. topK (state w) = Fin x \<and> x \<noteq> 0 \<longrightarrow>
               gen_topK (generationConfig p) = Fin (max 1 (min x 200)))
        \<and> (temperature (state w) = Fin 5 \<longrightarrow> gen_temperature (generationConfig p) = Fin 2)
        \<and> (topK (state w) = Fin 0 \<longrightarrow> gen_topK (generationConfig p) = Fin 40)"
  proof (intro ballI, clarify)
    fix u p assume "(u, p) \<in> set ps"
    then have g: "generationConfig p = genConfig (state w)" using ps(2) by auto
    show "js_le (Fin 0) (gen_temperature (generationConfig p))
        \<and> js_le (gen_temperature (generationConfig p)) (Fin 2)
        \<and> js_le (Fin 0) (gen_topP (generationConfig p))
        \<and> js_le (gen_topP (generationConfig p)) (Fin 1)
        \<and> js_le (Fin 1) (gen_topK (generationConfig p))
        \<and> js_le (gen_topK (generationConfig p)) (Fin 200)
        \<and> (\<forall>x. temperature (state w) = Fin x \<and> x \<noteq> 0 \<longrightarrow>
               gen_temperature (generationConfig p) = Fin (max 0 (min x 2)))
        \<and> (\<forall>x. topP (state w) = Fin x \<and> x \<noteq> 0 \<longrightarrow>
               gen_topP (generationConfig p) = Fin (max 0 (min x 1)))
        \<and> (\<forall>x. topK (state w) = Fin x \<and> x \<noteq> 0 \<longrightarrow>
               gen_topK (generationConfig p) = Fin (max 1 (min x 200)))
        \<and> (temperature (state w) = Fin 5 \<longrightarrow> gen_temperature (generationConfig p) = Fin 2)
        \<and> (topK (state w) = Fin 0 \<longrightarrow> gen_topK (generationConfig p) = Fin 40)"
      unfolding g
      using genConfig_range[of "state w"] genConfig_nonzero[of "state w"]
        genConfig_zero_topK[of "state w"] five
      by blast
  qed
  then show ?thesis using ps(1) by blast
qed

theorem generation_parameters_sent_witness:
  "\<exists>ps. posts (effects (snd (send plainEnv []
              (setTopK (Fin 0) (setTemperature (Fin 5) (readyWorld ''hello''))))))
          = posts (effects (setTopK (Fin 0) (setTemperature (Fin 5) (readyWorld ''hello'')))) @ ps
     \<and> length ps = 1
     \<and> (\<forall>(u, p)\<in>set ps.
            gen_temperature (generationConfig p) = Fin 2
          \<and> gen_topK (generationConfig p) = Fin 40
          \<and> js_le (Fin 0) (gen_topP (generationConfig p))
          \<and> js_le (gen_topP (generationConfig p)) (Fin 1))"
proof -
  let ?W = "setTopK (Fin 0) (setTemperature (Fin 5) (readyWorld ''hello''))"
  have run: "send plainEnv [] ?W = (fst (send plainEnv [] ?W), snd (send plainEnv [] ?W))"
    by simp
  have t: "temperature (state ?W) = Fin 5" and k: "topK (state ?W) = Fin 0"
    by (simp_all add: setTopK_def setTemperature_def)
  have g: "trim (input (state ?W)) \<noteq> []" "\<not> busy ?W" "effectiveKey plainEnv (state ?W) \<noteq> []"
    "cacheRef ?W (trim (input (state ?W))) = None"
    by (simp_all add: world_eval setTopK_def setTemperature_def trim_example)
  have one: "length (posts (effects (snd (send plainEnv [] ?W)))) = length (posts (effects ?W)) + 1"
    unfolding first_request[OF g] by simp
  obtain ps where ps: "posts (effects (snd (send plainEnv [] ?W))) = posts (effects ?W) @ ps"
    and all: "\<forall>(u, p)\<in>set ps.
          js_le (Fin 0) (gen_topP (generationConfig p))
        \<and> js_le (gen_topP (generationConfig p)) (Fin 1)
        \<and> (temperature (state ?W) = Fin 5 \<longrightarrow> gen_temperature (generationConfig p) = Fin 2)
        \<and> (topK (state ?W) = Fin 0 \<longrightarrow> gen_topK (generationConfig p) = Fin 40)"
    using generation_parameters_sent[OF run] by blast
  have "length ps = 1" using one ps by simp
  moreover have "\<forall>(u, p)\<in>set ps.
            gen_temperature (generationConfig p) = Fin 2
          \<and> gen_topK (generationConfig p) = Fin 40
          \<and> js_le (Fin 0) (gen_topP (generationConfig p))
          \<and> js_le (gen_topP (generationConfig p)) (Fin 1)"
    using all t k by blast
  ultimately show ?thesis using ps by blast
qed

text \<open>
  Claim C2 as stated fails at its second example: with a stored topK of 0 the request
  carries topK 40, not 1.
\<close>

theorem topK_zero_counterexample:
  "map (gen_topK \<circ> generationConfig \<circ> snd)
     (posts (effects (snd (send plainEnv [] (setTopK (Fin 0) (readyWorld ''hello''))))))
     = [Fin 40]
   \<and> map (gen_topK \<circ> generationConfig \<circ> snd)
     (posts (effects (snd (send plainEnv [] (setTopK (Fin 0) (readyWorld ''hello''))))))
     \<noteq> [Fin 1]"
proof -
  let ?W = "setTopK (Fin 0) (readyWorld ''hello'')"
  have g: "trim (input (state ?W)) \<noteq> []" "\<not> busy ?W" "effectiveKey plainEnv (state ?W) \<noteq> []"
    "cacheRef ?W (trim (input (state ?W))) = None"
    by (simp_all add: world_eval setTopK_def trim_example)
  have "effects ?W = []" by (simp add: world_eval setTopK_def)
  then have "map (gen_topK \<circ> generationConfig \<circ> snd) (posts (effects (snd (send plainEnv [] ?W))))
     = [gen_topK (genConfig (state ?W))]"
    unfolding first_request[OF g] by (simp add: posts_def buildPayload_def)
  moreover have "gen_topK (genConfig (state ?W)) = Fin 40"
    by (rule genConfig_zero_topK) (simp add: setTopK_def)
  ultimately show ?thesis by simp
qed

section \<open>Import of a file\<close>

lemma accepted_iff: "(truthy d \<and> typeof d = ''object'') = isNonNullObject d"
  by (cases d) (simp_all add: truthy_def typeof_def isNonNullObject_def)

text \<open>
  Claim C8. \<open>importChat\<close> accepts the text of a file exactly when it parses to a non-null
  object (in JavaScript's sense, arrays included). Then the parsed value itself becomes the
  Session State and nothing else changes. For every other text, one that does not parse or
  that parses to \<open>null\<close>, a boolean, a number or a string, the Session State stays as it
  was and the only effect is an alert that starts with \<open>"Import failed: "\<close>.
\<close>

theorem importChat_replaces_or_rejects:
  "(\<forall>d. JSON_parse txt = Inr d \<and> isNonNullObject d \<longrightarrow>
        importChat JSON_parse txt w = w\<lparr>state := d\<rparr>)
   \<and> ((\<forall>d. JSON_parse txt = Inr d \<longrightarrow> \<not> isNonNullObject d) \<longrightarrow>
        state (importChat JSON_parse txt w) = state w
        \<and> (\<exists>m. importChat JSON_parse txt w
                   = w\<lparr>effects := effects w @ [Alert (''Import failed: '' @ m)]\<rparr>))"
proof (cases "JSON_parse txt")
  case (Inl m)
  then show ?thesis by (auto simp: importChat_def)
next
  case (Inr d)
  show ?thesis
  proof (cases "isNonNullObject d")
    case True
    then have "truthy d" "typeof d = ''object''" using accepted_iff[of d] by simp_all
    then show ?thesis using Inr True by (auto simp: importChat_def)
  next
    case False
    then have "\<not> truthy d \<or> typeof d \<noteq> ''object''" using accepted_iff[of d] by simp
    then have "importChat JSON_parse txt w
                 = w\<lparr>effects := effects w @ [Alert (''Import failed: '' @ ''Invalid file'')]\<rparr>"
      using Inr by (simp add: importChat_def)
    then show ?thesis using Inr False by auto
  qed
qed

theorem importChat_replaces_or_rejects_witness:
  "sampleParse ''{}'' = Inr (JObject []) \<and> isNonNullObject (JObject [])
   \<and> importChat sampleParse ''{}'' sampleJsonWorld = sampleJsonWorld\<lparr>state := JObject []\<rparr>
   \<and> sampleParse ''null'' = Inr JNull \<and> \<not> isNonNullObject JNull
   \<and> state (importChat sampleParse ''null'' sampleJsonWorld) = state sampleJsonWorld
   \<and> alerts (effects (importChat sampleParse ''null'' sampleJsonWorld)) \<noteq> []
   \<and> sampleParse ''{oops'' = Inl ''Unexpected token''
   \<and> state (importChat sampleParse ''{oops'' sampleJsonWorld) = state sampleJsonWorld
   \<and> alerts (effects (importChat sampleParse ''{oops'' sampleJsonWorld)) \<noteq> []"
proof -
  have p1: "sampleParse ''{}'' = Inr (JObject [])" and o1: "isNonNullObject (JObject [])"
    by (simp_all add: sampleParse_def isNonNullObject_def)
  have p2: "sampleParse ''null'' = Inr JNull" and o2: "\<not> isNonNullObject JNull"
    by (simp_all add: sampleParse_def isNonNullObject_def)
  have p3: "sampleParse ''{oops'' = Inl ''Unexpected token''"
    by (simp add: sampleParse_def)
  have a: "importChat sampleParse ''{}'' sampleJsonWorld = sampleJsonWorld\<lparr>state := JObject []\<rparr>"
    using importChat_replaces_or_rejects[of sampleParse "''{}''" sampleJsonWorld] p1 o1 by blast
  have no2: "\<forall>d. sampleParse ''null'' = Inr d \<longrightarrow> \<not> isNonNullObject d"
    using p2 o2 by simp
  have no3: "\<forall>d. sampleParse ''{oops'' = Inr d \<longrightarrow> \<not> isNonNullObject d"
    using p3 by simp
  obtain m2 where b: "state (importChat sampleParse ''null'' sampleJsonWorld) = state sampleJsonWorld"
    "importChat sampleParse ''null'' sampleJsonWorld
       = sampleJsonWorld\<lparr>effects := effects sampleJsonWorld @ [Alert (''Import failed: '' @ m2)]\<rparr>"
    using importChat_replaces_or_rejects[of sampleParse "''null''" sampleJsonWorld] no2 by blast
  obtain m3 where c: "state (importChat sampleParse ''{oops'' sampleJsonWorld) = state sampleJsonWorld"
    "importChat sampleParse ''{oops'' sampleJsonWorld
       = sampleJsonWorld\<lparr>effects := effects sampleJsonWorld @ [Alert (''Import failed: '' @ m3)]\<rparr>"
    using importChat_replaces_or_rejects[of sampleParse "''{oops''" sampleJsonWorld] no3 by blast
  have b': "alerts (effects (importChat sampleParse ''null'' sampleJsonWorld)) \<noteq> []"
    unfolding b(2) by (simp add: alerts_append) (simp add: alerts_def)
  have c': "alerts (effects (importChat sampleParse ''{oops'' sampleJsonWorld)) \<noteq> []"
    unfolding c(2) by (simp add: alerts_append) (simp add: alerts_def)
  show ?thesis using p1 o1 a p2 o2 b(1) b' p3 c(1) c' by blast
qed

end
